theory Spec2Isabelle
  imports Main "HOL-Library.Char_ord" "HOL-Library.List_Lexorder" "HOL-Library.Multiset"
    "HOL-Library.AList"
begin

section \<open>JavaScript string primitives used by the rule\<close>

text \<open>
  Strings are lists of characters. The built-in methods the rule calls on strings and
  arrays (\<^verbatim>\<open>split\<close>, \<^verbatim>\<open>join\<close>, \<^verbatim>\<open>sort\<close>, \<^verbatim>\<open>startsWith\<close>, \<^verbatim>\<open>endsWith\<close>,
  \<^verbatim>\<open>slice\<close>) are written out after their ECMAScript definitions. The default
  \<^verbatim>\<open>sort\<close> of an array of strings orders them by code units, lexicographically, a proper
  prefix first: that is the order of \<^typ>\<open>char list\<close> here.
\<close>

text \<open>
  \<^verbatim>\<open>s.split(sep)\<close> for a string separator: the cursor runs from left to right; where the
  separator occurs, the piece collected so far is emitted and the cursor jumps behind the
  occurrence. \<open>acc\<close> is the piece collected so far. The empty string splits to one empty
  piece; an empty separator splits into single code units.
\<close>

function split_from :: "string \<Rightarrow> string \<Rightarrow> string \<Rightarrow> string list" where
  "split_from sep acc s =
     (if s = [] then [acc]
      else if sep \<noteq> [] \<and> take (length sep) s = sep
        then acc # split_from sep [] (drop (length sep) s)
      else split_from sep (acc @ [hd s]) (tl s))"
  by pat_completeness auto
termination
  by (relation "measure (\<lambda>(sep, acc, s). length s)") auto

definition split :: "string \<Rightarrow> string \<Rightarrow> string list" where
  "split sep s = (if sep = [] then map (\<lambda>c. [c]) s else split_from sep [] s)"

text \<open>\<^verbatim>\<open>xs.join(sep)\<close>.\<close>

fun join :: "string \<Rightarrow> string list \<Rightarrow> string" where
  "join sep [] = []"
| "join sep [x] = x"
| "join sep (x # y # ys) = x @ sep @ join sep (y # ys)"

definition startsWith :: "string \<Rightarrow> string \<Rightarrow> bool" where
  "startsWith s p \<longleftrightarrow> take (length p) s = p"

definition endsWith :: "string \<Rightarrow> string \<Rightarrow> bool" where
  "endsWith s p \<longleftrightarrow> length p \<le> length s \<and> drop (length s - length p) s = p"

text \<open>\<^verbatim>\<open>s.slice(a, b)\<close> for \<open>0 \<le> a\<close>, \<open>0 \<le> b\<close>.\<close>

definition slice :: "nat \<Rightarrow> nat \<Rightarrow> string \<Rightarrow> string" where
  "slice a b s = take (b - a) (drop a s)"

section \<open>Type Normalizer: \<^verbatim>\<open>fixupIntersections\<close>, \<^verbatim>\<open>fixupUnions\<close>\<close>

function fixupIntersections :: "string \<Rightarrow> string" where
  "fixupIntersections s =
     (if startsWith s ''('' \<and> endsWith s '')''
        then ''('' @ fixupIntersections (slice 1 (length s - 1) s) @ '')''
      else join '' & '' (sort (split '' & '' s)))"
  by pat_completeness auto
termination
proof (relation "measure length")
  fix s :: string
  assume "startsWith s ''('' \<and> endsWith s '')''"
  then have "s \<noteq> []"
    by (auto simp: startsWith_def)
  then show "(slice 1 (length s - 1) s, s) \<in> measure length"
    by (cases s) (simp_all add: slice_def)
qed simp

definition fixupUnions :: "string \<Rightarrow> string" where
  "fixupUnions s = join '' | '' (sort (map fixupIntersections (split '' | '' s)))"


text \<open>
  Shapes of type texts on which the normalizer is studied below: a union of members, each
  member an intersection of parts wrapped in \<open>n\<close> pairs of parentheses, the parts free of
  the characters the normalizer looks at.
\<close>

fun wrap :: "nat \<Rightarrow> string \<Rightarrow> string" where
  "wrap 0 s = s"
| "wrap (Suc n) s = ''('' @ wrap n s @ '')''"

definition plain :: "string \<Rightarrow> bool" where
  "plain a \<longleftrightarrow> set a \<inter> {CHR ''&'', CHR ''|'', CHR ''('', CHR '')''} = {}"

definition render_member :: "nat \<times> string list \<Rightarrow> string" where
  "render_member m = wrap (fst m) (join '' & '' (snd m))"

definition render_union :: "(nat \<times> string list) list \<Rightarrow> string" where
  "render_union ms = join '' | '' (map render_member ms)"

definition well_formed_member :: "nat \<times> string list \<Rightarrow> bool" where
  "well_formed_member m \<longleftrightarrow> snd m \<noteq> [] \<and> list_all plain (snd m)"

definition member_key :: "nat \<times> string list \<Rightarrow> nat \<times> string multiset" where
  "member_key m = (fst m, mset (snd m))"

section \<open>Source files, syntax trees, diagnostics\<close>

text \<open>
  What the rule reads of a TypeScript syntax node: whether it is an expression statement
  (then its only child is its expression), \<^verbatim>\<open>getStart\<close>, \<^verbatim>\<open>getEnd\<close>, its children in
  the order of \<^verbatim>\<open>forEachChild\<close>, and \<open>typeText\<close>, the string that
  \<^verbatim>\<open>checker.typeToString(checker.getTypeAtLocation(node), undefined, NoTruncation)\<close>
  returns for it in the program that owns the tree.
\<close>

datatype node =
    ExpressionStatement nat nat string node
  | OtherNode nat nat string "node list"

fun getStart :: "node \<Rightarrow> nat" where
  "getStart (ExpressionStatement s e t x) = s"
| "getStart (OtherNode s e t cs) = s"

fun getEnd :: "node \<Rightarrow> nat" where
  "getEnd (ExpressionStatement s e t x) = e"
| "getEnd (OtherNode s e t cs) = e"

fun typeText :: "node \<Rightarrow> string" where
  "typeText (ExpressionStatement s e t x) = t"
| "typeText (OtherNode s e t cs) = t"

fun children :: "node \<Rightarrow> node list" where
  "children (ExpressionStatement s e t x) = [x]"
| "children (OtherNode s e t cs) = cs"

record source_file =
  sourceText :: string
  isDeclarationFile :: bool
  lineStarts :: "nat list"
  statements :: "node list"

text \<open>
  \<^verbatim>\<open>sourceFile.getLineAndCharacterOfPosition(pos).line\<close>: the index of the last line start
  that is not behind \<open>pos\<close> (line starts increase, the first is 0).
\<close>

definition lineOfPosition :: "nat \<Rightarrow> source_file \<Rightarrow> nat" where
  "lineOfPosition pos sourceFile = length (takeWhile (\<lambda>s. s \<le> pos) (lineStarts sourceFile)) - 1"

datatype message_text = MessageString string | MessageChain string "message_text list"

text \<open>The file a diagnostic belongs to: the file under test, another file, or none.\<close>

datatype diagnostic_file = SameFile | OtherFile string | NoFile

record diagnostic =
  diagnosticFile :: diagnostic_file
  start :: nat
  width :: nat
  messageText :: message_text

datatype syntax_kind =
    EndOfFileToken | WhitespaceTrivia | NewLineTrivia | SingleLineCommentTrivia
  | MultiLineCommentTrivia | ShebangTrivia | ConflictMarkerTrivia | Token

record token =
  kind :: syntax_kind
  tokenPos :: nat
  tokenText :: string

record program =
  getSourceFile :: "source_file option"

text \<open>
  One TypeScript module (\<^verbatim>\<open>require(path)\<close>, or the statically imported one): what the
  rule calls on it. \<open>scan\<close> is the token sequence its scanner yields on a text with
  \<^verbatim>\<open>skipTrivia = false\<close>; \<open>buildProgram\<close> is the chain \<^verbatim>\<open>readConfigFile\<close>,
  \<^verbatim>\<open>parseJsonConfigFileContent\<close>, \<^verbatim>\<open>createCompilerHost\<close>, \<^verbatim>\<open>createProgram\<close> on a
  configuration file, \<open>None\<close> when it throws.
\<close>

record ts_module =
  scan :: "string \<Rightarrow> token list"
  getPreEmitDiagnostics :: "program \<Rightarrow> diagnostic list"
  flattenDiagnosticMessageText :: "message_text \<Rightarrow> string \<Rightarrow> string"
  buildProgram :: "string \<Rightarrow> program option"

record failure =
  failureStart :: nat
  failureEnd :: nat
  message :: string

text \<open>
  The exceptions a run can end with: the \<^verbatim>\<open>assert\<close> on \<open>olderInstalls\<close>, the bare
  \<^verbatim>\<open>throw new Error()\<close> after the backward scan, a \<^verbatim>\<open>TypeError\<close> of the JavaScript
  runtime (a property read on \<^verbatim>\<open>undefined\<close>), a failed assertion inside TypeScript
  (\<^verbatim>\<open>getPositionOfLineAndCharacter\<close> on a line the file does not have), and an exception
  of a collaborator (\<^verbatim>\<open>require\<close>, building a program).
\<close>

datatype error = AssertionError | UnreachableError | TypeError | DebugFailure | CollaboratorError

fun mapM :: "('a \<Rightarrow> error + 'b) \<Rightarrow> 'a list \<Rightarrow> error + 'b list" where
  "mapM f [] = Inr []"
| "mapM f (x # xs) =
     (case f x of Inl e \<Rightarrow> Inl e
      | Inr y \<Rightarrow> (case mapM f xs of Inl e \<Rightarrow> Inl e | Inr ys \<Rightarrow> Inr (y # ys)))"

section \<open>Assertion Scanner: \<^verbatim>\<open>parseAssertions\<close>\<close>

text \<open>
  The match of \<^verbatim>\<open>/^\/\/ \$Expect((Type (.*))|Error)/\<close> on a comment text: \<open>ExpectType t\<close>
  when group 1 is \<^verbatim>\<open>Type\<close>, a space and group 3 = \<open>t\<close>; \<open>ExpectError\<close> when group 1 is
  \<^verbatim>\<open>Error\<close>. The pattern is anchored at the start only. \<^verbatim>\<open>.\<close> stops at a line terminator.
\<close>

datatype directive = ExpectType string | ExpectError

definition lineTerminator :: "char \<Rightarrow> bool" where
  "lineTerminator c \<longleftrightarrow> c = CHR 0x0A \<or> c = CHR 0x0D"

definition matchDirective :: "string \<Rightarrow> directive option" where
  "matchDirective commentText =
     (if startsWith commentText ''// $Expect'' then
        (let rest = drop (length ''// $Expect'') commentText in
         if startsWith rest ''Type '' then
           Some (ExpectType (takeWhile (\<lambda>c. \<not> lineTerminator c) (drop (length ''Type '') rest)))
         else if startsWith rest ''Error'' then Some ExpectError
         else None)
      else None)"

record assertions =
  errorLines :: "nat list"
  typeAssertions :: "(nat \<times> string) list"
  duplicates :: "nat list"

text \<open>
  \<open>errorLines\<close> is a JavaScript \<^verbatim>\<open>Set\<close> and \<open>typeAssertions\<close> a \<^verbatim>\<open>Map\<close>; both iterate in
  insertion order, so they are lists without repeated keys: \<^verbatim>\<open>add\<close> appends a new
  element, \<^verbatim>\<open>set\<close> appends a new key (\<^const>\<open>AList.update\<close>), \<^verbatim>\<open>delete\<close> removes the key
  (\<^const>\<open>AList.delete\<close>), \<^verbatim>\<open>get\<close> is \<^const>\<open>map_of\<close>.
\<close>

definition Set_add :: "nat \<Rightarrow> nat list \<Rightarrow> nat list" where
  "Set_add x xs = (if x \<in> set xs then xs else xs @ [x])"

text \<open>The \<^verbatim>\<open>while\<close> loop of \<^verbatim>\<open>getLine\<close>; \<^verbatim>\<open>lineStarts[curLine + 1]\<close> is undefined behind the
  last line and the comparison is then false.\<close>

function advance :: "nat list \<Rightarrow> nat \<Rightarrow> nat \<Rightarrow> nat" where
  "advance ls curLine pos =
     (if curLine + 1 < length ls \<and> ls ! (curLine + 1) \<le> pos
      then advance ls (curLine + 1) pos else curLine)"
  by pat_completeness auto
termination
  by (relation "measure (\<lambda>(ls, curLine, pos). length ls - curLine)") auto

text \<open>\<^verbatim>\<open>getLine(pos)\<close>: the applicable line and the new value of \<^verbatim>\<open>curLine\<close>.\<close>

definition getLine :: "nat list \<Rightarrow> int \<Rightarrow> nat \<Rightarrow> nat \<Rightarrow> nat \<times> nat" where
  "getLine ls prevTokenPos curLine pos =
     (let curLine' = advance ls curLine pos;
          isFirstTokenOnLine = (curLine' < length ls \<and> int (ls ! curLine') > prevTokenPos)
      in (if isFirstTokenOnLine then curLine' + 1 else curLine', curLine'))"

text \<open>The body of \<^verbatim>\<open>if (match)\<close>: one directive recorded for its line.\<close>

fun record_directive :: "directive \<Rightarrow> nat \<Rightarrow> assertions \<Rightarrow> assertions" where
  "record_directive ExpectError line a =
     a\<lparr>duplicates := (if line \<in> set (errorLines a) then duplicates a @ [line] else duplicates a),
       errorLines := Set_add line (errorLines a)\<rparr>"
| "record_directive (ExpectType expectedType) line a =
     (if map_of (typeAssertions a) line \<noteq> None
      then a\<lparr>typeAssertions := AList.delete line (typeAssertions a),
             duplicates := duplicates a @ [line]\<rparr>
      else a\<lparr>typeAssertions := AList.update line expectedType (typeAssertions a)\<rparr>)"

text \<open>
  The scanning loop over the tokens the scanner yields, with the loop's variables
  \<^verbatim>\<open>prevTokenPos\<close> and \<^verbatim>\<open>curLine\<close>. A scanner at the end of its text yields
  \<^verbatim>\<open>EndOfFileToken\<close>, so the empty sequence ends the loop too.
\<close>

fun scanLoop :: "nat list \<Rightarrow> token list \<Rightarrow> int \<Rightarrow> nat \<Rightarrow> assertions \<Rightarrow> assertions" where
  "scanLoop ls [] prevTokenPos curLine a = a"
| "scanLoop ls (t # ts) prevTokenPos curLine a =
     (case kind t of
        EndOfFileToken \<Rightarrow> a
      | WhitespaceTrivia \<Rightarrow> scanLoop ls ts prevTokenPos curLine a
      | SingleLineCommentTrivia \<Rightarrow>
          (case matchDirective (tokenText t) of
             None \<Rightarrow> scanLoop ls ts prevTokenPos curLine a
           | Some d \<Rightarrow>
               (let (line, curLine') = getLine ls prevTokenPos curLine (tokenPos t)
                in scanLoop ls ts prevTokenPos curLine' (record_directive d line a)))
      | _ \<Rightarrow> scanLoop ls ts (int (tokenPos t)) curLine a)"

definition parseAssertions :: "source_file \<Rightarrow> ts_module \<Rightarrow> assertions" where
  "parseAssertions source ts =
     scanLoop (lineStarts source) (scan ts (sourceText source)) (- 1) 0
       \<lparr>errorLines = [], typeAssertions = [], duplicates = []\<rparr>"

text \<open>
  The directives of a token sequence with the line each applies to, in the order the loop
  meets them: the same walk over the tokens as \<^const>\<open>scanLoop\<close>, the table left out.
\<close>

fun directiveLines :: "nat list \<Rightarrow> token list \<Rightarrow> int \<Rightarrow> nat \<Rightarrow> (nat \<times> directive) list" where
  "directiveLines ls [] prevTokenPos curLine = []"
| "directiveLines ls (t # ts) prevTokenPos curLine =
     (case kind t of
        EndOfFileToken \<Rightarrow> []
      | WhitespaceTrivia \<Rightarrow> directiveLines ls ts prevTokenPos curLine
      | SingleLineCommentTrivia \<Rightarrow>
          (case matchDirective (tokenText t) of
             None \<Rightarrow> directiveLines ls ts prevTokenPos curLine
           | Some d \<Rightarrow>
               (let (line, curLine') = getLine ls prevTokenPos curLine (tokenPos t)
                in (line, d) # directiveLines ls ts prevTokenPos curLine'))
      | _ \<Rightarrow> directiveLines ls ts (int (tokenPos t)) curLine)"

text \<open>The loop's variables \<^verbatim>\<open>prevTokenPos\<close> and \<^verbatim>\<open>curLine\<close> after a token sequence: again the
  same walk over the tokens.\<close>

fun loopState :: "nat list \<Rightarrow> token list \<Rightarrow> int \<Rightarrow> nat \<Rightarrow> int \<times> nat" where
  "loopState ls [] prevTokenPos curLine = (prevTokenPos, curLine)"
| "loopState ls (t # ts) prevTokenPos curLine =
     (case kind t of
        EndOfFileToken \<Rightarrow> (prevTokenPos, curLine)
      | WhitespaceTrivia \<Rightarrow> loopState ls ts prevTokenPos curLine
      | SingleLineCommentTrivia \<Rightarrow>
          (case matchDirective (tokenText t) of
             None \<Rightarrow> loopState ls ts prevTokenPos curLine
           | Some d \<Rightarrow>
               (let (line, curLine') = getLine ls prevTokenPos curLine (tokenPos t)
                in loopState ls ts prevTokenPos curLine'))
      | _ \<Rightarrow> loopState ls ts (int (tokenPos t)) curLine)"

text \<open>The tokens that reach the \<^verbatim>\<open>default\<close> branch of the loop and set \<^verbatim>\<open>prevTokenPos\<close>:
  all but whitespace, single-line comments and the end of file. Line breaks and block
  comments are among them.\<close>

definition setsPrevTokenPos :: "token \<Rightarrow> bool" where
  "setsPrevTokenPos t \<longleftrightarrow>
     kind t \<noteq> WhitespaceTrivia \<and> kind t \<noteq> SingleLineCommentTrivia \<and> kind t \<noteq> EndOfFileToken"

text \<open>Trivia in TypeScript's sense: whitespace, line breaks, comments, shebang and conflict
  markers.\<close>

definition isTrivia :: "token \<Rightarrow> bool" where
  "isTrivia t \<longleftrightarrow> kind t \<noteq> Token \<and> kind t \<noteq> EndOfFileToken"

text \<open>How many \<^verbatim>\<open>$ExpectError\<close> and how many \<^verbatim>\<open>$ExpectType\<close> directives of a sequence apply
  to a line.\<close>

definition expectErrorCount :: "(nat \<times> directive) list \<Rightarrow> nat \<Rightarrow> nat" where
  "expectErrorCount hs line = length (filter (\<lambda>h. fst h = line \<and> snd h = ExpectError) hs)"

definition expectTypeCount :: "(nat \<times> directive) list \<Rightarrow> nat \<Rightarrow> nat" where
  "expectTypeCount hs line = length (filter (\<lambda>h. fst h = line \<and> snd h \<noteq> ExpectError) hs)"

text \<open>The directives \<^const>\<open>parseAssertions\<close> meets on a source file, with their lines.\<close>

definition directivesOf :: "source_file \<Rightarrow> ts_module \<Rightarrow> (nat \<times> directive) list" where
  "directivesOf source ts = directiveLines (lineStarts source) (scan ts (sourceText source)) (- 1) 0"

section \<open>Node Matcher: \<^verbatim>\<open>getExpectTypeFailures\<close>\<close>

record unmet_expectation =
  node :: node
  expected :: string
  actual :: string

text \<open>
  \<^verbatim>\<open>iterate(node)\<close> with the two variables it mutates, the pending table and
  \<^verbatim>\<open>unmetExpectations\<close>, passed through. \<open>forEachChild_iterate\<close> is
  \<^verbatim>\<open>ts.forEachChild(node, iterate)\<close> on the children of a node. On a match an expression
  statement is replaced by its expression before its type is taken, and the children
  visited afterwards are those of the replacement.
\<close>

fun unwrap :: "node \<Rightarrow> node" where
  "unwrap (ExpressionStatement s e t x) = x"
| "unwrap (OtherNode s e t cs) = OtherNode s e t cs"

function iterate :: "source_file \<Rightarrow> node \<Rightarrow> (nat \<times> string) list \<times> unmet_expectation list
      \<Rightarrow> (nat \<times> string) list \<times> unmet_expectation list"
  and forEachChild_iterate :: "source_file \<Rightarrow> node list
      \<Rightarrow> (nat \<times> string) list \<times> unmet_expectation list
      \<Rightarrow> (nat \<times> string) list \<times> unmet_expectation list"
where
  "iterate sourceFile n (pending, unmet) =
     (let line = lineOfPosition (getStart n) sourceFile in
      case map_of pending line of
        None \<Rightarrow> forEachChild_iterate sourceFile (children n) (pending, unmet)
      | Some expected' \<Rightarrow>
          (let n' = unwrap n;
               actual' = fixupUnions (typeText n')
           in forEachChild_iterate sourceFile (children n')
                (AList.delete line pending,
                 (if actual' \<noteq> expected'
                  then unmet @ [\<lparr>node = n', expected = expected', actual = actual'\<rparr>]
                  else unmet))))"
| "forEachChild_iterate sourceFile [] st = st"
| "forEachChild_iterate sourceFile (c # cs) st =
     forEachChild_iterate sourceFile cs (iterate sourceFile c st)"
  by pat_completeness auto
termination
proof (relation "measure (\<lambda>x. case x of
          Inl (sf, n, st) \<Rightarrow> 2 * size n + 1
        | Inr (sf, ns, st) \<Rightarrow> 2 * size_list size ns)")
  have children_size: "size_list size (children n) \<le> size n" for n
    by (cases n) simp_all
  have unwrap_size: "size (unwrap n) \<le> size n" for n
    by (cases n) simp_all
  fix sourceFile :: source_file and n :: node
    and pending :: "(nat \<times> string) list"
    and unmet :: "unmet_expectation list"
  show "(Inr (sourceFile, children n, pending, unmet),
         Inl (sourceFile, n, pending, unmet))
        \<in> measure (\<lambda>x. case x of
          Inl (sf, n, st) \<Rightarrow> 2 * size n + 1
        | Inr (sf, ns, st) \<Rightarrow> 2 * size_list size ns)"
    using children_size [of n] by simp
  fix line n' act ex st'
  assume "n' = unwrap n"
  then show "(Inr (sourceFile, children n', st'),
         Inl (sourceFile, n, pending, unmet))
        \<in> measure (\<lambda>x. case x of
          Inl (sf, n, st) \<Rightarrow> 2 * size n + 1
        | Inr (sf, ns, st) \<Rightarrow> 2 * size_list size ns)"
    using children_size [of "unwrap n"] unwrap_size [of n] by simp
qed simp_all

record expect_type_failures =
  unmetExpectations :: "unmet_expectation list"
  unusedAssertions :: "nat list"

definition getExpectTypeFailures :: "source_file \<Rightarrow> (nat \<times> string) list \<Rightarrow> expect_type_failures" where
  "getExpectTypeFailures sourceFile pending =
     (let (remaining, unmet) = forEachChild_iterate sourceFile (statements sourceFile) (pending, [])
      in \<lparr>unmetExpectations = unmet, unusedAssertions = map fst remaining\<rparr>)"

text \<open>All nodes of a tree, parents first: the nodes \<^verbatim>\<open>forEachChild\<close> can reach.\<close>

fun subtree :: "node \<Rightarrow> node list"
  and subtrees :: "node list \<Rightarrow> node list"
where
  "subtree (ExpressionStatement s e t x) = ExpressionStatement s e t x # subtree x"
| "subtree (OtherNode s e t cs) = OtherNode s e t cs # subtrees cs"
| "subtrees [] = []"
| "subtrees (c # cs) = subtree c @ subtrees cs"


text \<open>
  The body of \<^verbatim>\<open>iterate\<close> run over a list of nodes one after the other, without the
  descent into the children: the traversal laid out flat. Over a tree in which an
  expression statement starts on the line of its expression, \<^const>\<open>iterate\<close> is this loop
  over the nodes of the tree, parents first.
\<close>

fun matchNodes :: "source_file \<Rightarrow> node list \<Rightarrow> (nat \<times> string) list \<times> unmet_expectation list
      \<Rightarrow> (nat \<times> string) list \<times> unmet_expectation list" where
  "matchNodes sourceFile [] st = st"
| "matchNodes sourceFile (n # ns) (pending, unmet) =
     (let line = lineOfPosition (getStart n) sourceFile in
      case map_of pending line of
        None \<Rightarrow> matchNodes sourceFile ns (pending, unmet)
      | Some expected' \<Rightarrow>
          (let n' = unwrap n;
               actual' = fixupUnions (typeText n')
           in matchNodes sourceFile ns
                (AList.delete line pending,
                 (if actual' \<noteq> expected'
                  then unmet @ [\<lparr>node = n', expected = expected', actual = actual'\<rparr>]
                  else unmet))))"

section \<open>The walk over one file: \<^verbatim>\<open>walk\<close>\<close>

definition FAILURE_STRING_DUPLICATE_ASSERTION :: string where
  "FAILURE_STRING_DUPLICATE_ASSERTION = ''This line has 2 $ExpectType assertions.''"

definition FAILURE_STRING_ASSERTION_MISSING_NODE :: string where
  "FAILURE_STRING_ASSERTION_MISSING_NODE = ''Can not match a node to this assertion.''"

definition FAILURE_STRING_EXPECTED_ERROR :: string where
  "FAILURE_STRING_EXPECTED_ERROR = ''Expected an error on this line, but found none.''"

definition FAILURE_STRING :: "string \<Rightarrow> string \<Rightarrow> string" where
  "FAILURE_STRING expectedType actualType =
     ''Expected type to be:'' @ [CHR 0x0A] @ ''  '' @ expectedType @ [CHR 0x0A]
       @ ''got:'' @ [CHR 0x0A] @ ''  '' @ actualType"

definition getIntro :: "string \<Rightarrow> string option \<Rightarrow> string" where
  "getIntro versionName nextHigherVersion =
     (case nextHigherVersion of
        None \<Rightarrow> ''TypeScript@'' @ versionName @ '' compile error: ''
      | Some higher \<Rightarrow>
          (let msg = ''Compile error in typescript@'' @ versionName
                       @ '' but not in typescript@'' @ higher @ ''.'' @ [CHR 0x0A];
               explain = (if higher = ''next''
                  then ''TypeScript@next features not yet supported.''
                  else ''Fix with a comment '' @ [CHR 0x27] @ ''// TypeScript Version: '' @ higher
                         @ [CHR 0x27] @ '' just under the header.'')
           in msg @ explain))"

text \<open>A message text inside a template literal: a string as it is, a message chain as
  any object.\<close>

fun toString :: "message_text \<Rightarrow> string" where
  "toString (MessageString s) = s"
| "toString (MessageChain s next) = ''[object Object]''"

definition addDiagnosticFailure :: "ts_module \<Rightarrow> string \<Rightarrow> string option \<Rightarrow> diagnostic \<Rightarrow> failure" where
  "addDiagnosticFailure ts versionName nextHigherVersion d =
     (let intro = getIntro versionName nextHigherVersion in
      if diagnosticFile d = SameFile
      then \<lparr>failureStart = start d, failureEnd = start d + width d,
            message = intro @ [CHR 0x0A] @ flattenDiagnosticMessageText ts (messageText d) [CHR 0x0A]\<rparr>
      else (let fileName = (case diagnosticFile d of OtherFile name \<Rightarrow> name @ '': '' | _ \<Rightarrow> [])
            in \<lparr>failureStart = 0, failureEnd = 0,
                 message = intro @ [CHR 0x0A] @ fileName @ toString (messageText d)\<rparr>))"

text \<open>
  \<^verbatim>\<open>addFailureAtLine\<close>: \<^verbatim>\<open>getPositionOfLineAndCharacter(line, 0)\<close> fails inside TypeScript on
  a line the file does not have; \<^verbatim>\<open>text.split("\n")[line]\<close> is undefined behind the last
  piece and reading its length is a \<^verbatim>\<open>TypeError\<close>.
\<close>

definition addFailureAtLine :: "source_file \<Rightarrow> nat \<Rightarrow> string \<Rightarrow> error + failure" where
  "addFailureAtLine sourceFile line failureText =
     (if line \<ge> length (lineStarts sourceFile) then Inl DebugFailure
      else
        (let start' = lineStarts sourceFile ! line;
             pieces = split [CHR 0x0A] (sourceText sourceFile)
         in if line \<ge> length pieces then Inl TypeError
            else
              (let end' = start' + length (pieces ! line);
                   end'' = (if 0 < end' \<and> end' - 1 < length (sourceText sourceFile)
                               \<and> sourceText sourceFile ! (end' - 1) = CHR 0x0D
                            then end' - 1 else end')
               in Inr \<lparr>failureStart = start', failureEnd = end'', message = failureText\<rparr>)))"

text \<open>Whether \<open>p\<close> occurs in \<open>s\<close>; the test of \<^verbatim>\<open>/\$Expect(Type|Error)/\<close> is two such
  searches.\<close>

fun occursIn :: "string \<Rightarrow> string \<Rightarrow> bool" where
  "occursIn [] p = (p = [])"
| "occursIn (c # cs) p = (startsWith (c # cs) p \<or> occursIn cs p)"

definition hasDirectiveText :: "string \<Rightarrow> bool" where
  "hasDirectiveText s \<longleftrightarrow> occursIn s ''$ExpectType'' \<or> occursIn s ''$ExpectError''"

definition unmetFailure :: "unmet_expectation \<Rightarrow> failure" where
  "unmetFailure u =
     \<lparr>failureStart = getStart (node u), failureEnd = getEnd (node u),
      message = FAILURE_STRING (expected u) (actual u)\<rparr>"

text \<open>
  \<^verbatim>\<open>walk\<close> returns the failures added to the context, in the order they are added, or
  the exception that ends it. A program that does not hold the file gives
  \<^verbatim>\<open>undefined\<close> for the source file, and its first property read throws.
\<close>

definition walk :: "ts_module \<Rightarrow> program \<Rightarrow> string \<Rightarrow> string option \<Rightarrow> error + failure list" where
  "walk ts prog versionName nextHigherVersion =
     (case getSourceFile prog of
        None \<Rightarrow> Inl TypeError
      | Some sourceFile \<Rightarrow>
          (let diagnostics = getPreEmitDiagnostics ts prog in
           if isDeclarationFile sourceFile \<or> \<not> hasDirectiveText (sourceText sourceFile)
           then Inr (map (addDiagnosticFailure ts versionName nextHigherVersion) diagnostics)
           else
             (let a = parseAssertions sourceFile ts in
              case mapM (\<lambda>line. addFailureAtLine sourceFile line FAILURE_STRING_DUPLICATE_ASSERTION)
                     (duplicates a) of
                Inl e \<Rightarrow> Inl e
              | Inr duplicateFailures \<Rightarrow>
                 (let seenDiagnosticsOnLine = map (\<lambda>d. lineOfPosition (start d) sourceFile) diagnostics;
                      diagnosticFailures =
                        map (addDiagnosticFailure ts versionName nextHigherVersion)
                          (filter (\<lambda>d. lineOfPosition (start d) sourceFile \<notin> set (errorLines a))
                             diagnostics)
                  in case mapM (\<lambda>line. addFailureAtLine sourceFile line FAILURE_STRING_EXPECTED_ERROR)
                            (filter (\<lambda>line. line \<notin> set seenDiagnosticsOnLine) (errorLines a)) of
                       Inl e \<Rightarrow> Inl e
                     | Inr expectedErrorFailures \<Rightarrow>
                        (let r = getExpectTypeFailures sourceFile (typeAssertions a)
                         in case mapM (\<lambda>line. addFailureAtLine sourceFile line
                                          FAILURE_STRING_ASSERTION_MISSING_NODE)
                                   (unusedAssertions r) of
                              Inl e \<Rightarrow> Inl e
                            | Inr unusedFailures \<Rightarrow>
                                Inr (duplicateFailures @ diagnosticFailures @ expectedErrorFailures
                                     @ map unmetFailure (unmetExpectations r) @ unusedFailures))))))"





section \<open>Version Search Coordinator: \<^verbatim>\<open>applyWithProgram\<close>\<close>

record install =
  versionName :: string
  path :: string

record options =
  tsconfigPath :: string
  tsNextPath :: string
  olderInstalls :: "install list"

text \<open>
  The surroundings of one rule application: \<^verbatim>\<open>require\<close> (\<open>None\<close> when it throws) and the
  statically imported TypeScript. \<open>programCache\<close> is the entry of the module-level cache
  for the lint program at hand: version name to program.
\<close>

record environment =
  require :: "string \<Rightarrow> ts_module option"
  TsType :: ts_module

type_synonym program_cache = "string \<Rightarrow> program option"

definition createProgram :: "string \<Rightarrow> ts_module \<Rightarrow> error + program" where
  "createProgram configFile ts =
     (case buildProgram ts configFile of None \<Rightarrow> Inl CollaboratorError | Some p \<Rightarrow> Inr p)"

definition getProgram :: "string \<Rightarrow> ts_module \<Rightarrow> string \<Rightarrow> program_cache \<Rightarrow> error + program \<times> program_cache" where
  "getProgram configFile ts version versionToProgram =
     (case versionToProgram version of
        Some newProgram \<Rightarrow> Inr (newProgram, versionToProgram)
      | None \<Rightarrow>
          (case createProgram configFile ts of
             Inl e \<Rightarrow> Inl e
           | Inr newProgram \<Rightarrow> Inr (newProgram, versionToProgram(version \<mapsto> newProgram))))"

definition getFailures :: "environment \<Rightarrow> options \<Rightarrow> string \<Rightarrow> string \<Rightarrow> string option \<Rightarrow> program_cache
      \<Rightarrow> error + failure list \<times> program_cache" where
  "getFailures env opts version modulePath nextHigherVersion cache =
     (case require env modulePath of
        None \<Rightarrow> Inl CollaboratorError
      | Some ts \<Rightarrow>
          (case getProgram (tsconfigPath opts) ts version cache of
             Inl e \<Rightarrow> Inl e
           | Inr (prog, cache') \<Rightarrow>
               (case walk ts prog version nextHigherVersion of
                  Inl e \<Rightarrow> Inl e
                | Inr failures \<Rightarrow> Inr (failures, cache'))))"

text \<open>
  The backward loop \<^verbatim>\<open>for (let i = olderInstalls.length - 1; i >= 0; i--)\<close>; the counter
  here is \<open>i + 1\<close>, so that \<open>0\<close> is the exit of the loop, where the bare \<^verbatim>\<open>throw\<close> stands.
  \<open>nextHigherVersionAt\<close> is the loop's constant \<^verbatim>\<open>nextHigherVersion\<close> at index \<open>i\<close>. The
  \<^verbatim>\<open>console.log\<close> of each round is left out.
\<close>

definition nextHigherVersionAt :: "options \<Rightarrow> nat \<Rightarrow> string" where
  "nextHigherVersionAt opts i =
     (if i = length (olderInstalls opts) - 1 then ''next''
      else versionName (olderInstalls opts ! (i + 1)))"

fun scanBackward :: "environment \<Rightarrow> options \<Rightarrow> nat \<Rightarrow> program_cache \<Rightarrow> error + failure list \<times> program_cache" where
  "scanBackward env opts 0 cache = Inl UnreachableError"
| "scanBackward env opts (Suc i) cache =
     (let inst = olderInstalls opts ! i;
          nextHigherVersion = nextHigherVersionAt opts i
      in case getFailures env opts (versionName inst) (path inst) (Some nextHigherVersion) cache of
           Inl e \<Rightarrow> Inl e
         | Inr (failures, cache') \<Rightarrow>
             if failures \<noteq> [] then Inr (failures, cache') else scanBackward env opts i cache')"

definition applyWithProgram :: "environment \<Rightarrow> options option \<Rightarrow> program \<Rightarrow> program_cache
      \<Rightarrow> error + failure list \<times> program_cache" where
  "applyWithProgram env ruleArgument lintProgram cache =
     (case ruleArgument of
        None \<Rightarrow>
          (case walk (TsType env) lintProgram ''next'' None of
             Inl e \<Rightarrow> Inl e
           | Inr failures \<Rightarrow> Inr (failures, cache))
      | Some opts \<Rightarrow>
          (case getFailures env opts ''next'' (tsNextPath opts) None cache of
             Inl e \<Rightarrow> Inl e
           | Inr (nextFailures, cache1) \<Rightarrow>
               if nextFailures \<noteq> [] then Inr (nextFailures, cache1)
               else if olderInstalls opts = [] then Inl AssertionError
               else
                 (let minInstall = olderInstalls opts ! 0 in
                  case getFailures env opts (versionName minInstall) (path minInstall) None cache1 of
                    Inl e \<Rightarrow> Inl e
                  | Inr (minFailures, cache2) \<Rightarrow>
                      if minFailures = [] then Inr ([], cache2)
                      else scanBackward env opts (length (olderInstalls opts)) cache2)))"

section \<open>Properties of the Type Normalizer\<close>

declare split_from.simps [simp del]
declare fixupIntersections.simps [simp del]

subsection \<open>Splitting and joining\<close>

lemma split_from_Nil: "split_from sep acc [] = [acc]"
  by (subst split_from.simps) simp

lemma split_from_match:
  "sep \<noteq> [] \<Longrightarrow> split_from sep acc (sep @ rest) = acc # split_from sep [] rest"
  by (subst split_from.simps) simp

lemma split_from_step:
  "take (length sep) (a # s) \<noteq> sep \<Longrightarrow> split_from sep acc (a # s) = split_from sep (acc @ [a]) s"
  by (subst split_from.simps) simp

lemma split_from_sep:
  "c \<notin> set x \<Longrightarrow> s0 \<noteq> c \<Longrightarrow>
   split_from (s0 # c # r) acc (x @ (s0 # c # r) @ rest) = (acc @ x) # split_from (s0 # c # r) [] rest"
proof (induction x arbitrary: acc)
  case Nil
  show ?case using split_from_match [of "s0 # c # r" acc rest] by simp
next
  case (Cons a x)
  have nomatch: "take (length (s0 # c # r)) (a # (x @ (s0 # c # r) @ rest)) \<noteq> s0 # c # r"
    using Cons.prems by (cases x) auto
  have "split_from (s0 # c # r) acc ((a # x) @ (s0 # c # r) @ rest)
        = split_from (s0 # c # r) (acc @ [a]) (x @ (s0 # c # r) @ rest)"
    using split_from_step [OF nomatch] by simp
  also have "\<dots> = ((acc @ [a]) @ x) # split_from (s0 # c # r) [] rest"
    using Cons.prems by (intro Cons.IH) auto
  finally show ?case by simp
qed

lemma split_from_none:
  "c \<notin> set x \<Longrightarrow> split_from (s0 # c # r) acc x = [acc @ x]"
proof (induction x arbitrary: acc)
  case Nil
  show ?case by (simp add: split_from_Nil)
next
  case (Cons a x)
  have nomatch: "take (length (s0 # c # r)) (a # x) \<noteq> s0 # c # r"
    using Cons.prems by (cases x) auto
  have "split_from (s0 # c # r) acc (a # x) = split_from (s0 # c # r) (acc @ [a]) x"
    by (rule split_from_step [OF nomatch])
  also have "\<dots> = [(acc @ [a]) @ x]"
    using Cons.prems by (intro Cons.IH) auto
  finally show ?case by simp
qed

lemma split_join:
  "xs \<noteq> [] \<Longrightarrow> \<forall>x\<in>set xs. c \<notin> set x \<Longrightarrow> s0 \<noteq> c \<Longrightarrow>
   split (s0 # c # r) (join (s0 # c # r) xs) = xs"
proof (induction "s0 # c # r" xs rule: join.induct)
  case 1
  then show ?case by simp
next
  case (2 x)
  then show ?case by (simp add: split_def split_from_none)
next
  case (3 x y ys)
  have "split_from (s0 # c # r) [] (x @ (s0 # c # r) @ join (s0 # c # r) (y # ys))
        = ([] @ x) # split_from (s0 # c # r) [] (join (s0 # c # r) (y # ys))"
    using 3 by (intro split_from_sep) auto
  with 3 show ?case by (simp add: split_def)
qed

lemma set_join: "set (join sep xs) \<subseteq> set sep \<union> \<Union> (set ` set xs)"
  by (induction sep xs rule: join.induct) auto

lemma fixupIntersections_wrap: "fixupIntersections (wrap n s) = wrap n (fixupIntersections s)"
proof (induction n)
  case 0
  show ?case by simp
next
  case (Suc n)
  have "fixupIntersections (''('' @ wrap n s @ '')'')
        = ''('' @ fixupIntersections (wrap n s) @ '')''"
    by (subst fixupIntersections.simps) (simp add: startsWith_def endsWith_def slice_def)
  with Suc show ?case by simp
qed

lemma plain_join:
  assumes "list_all plain as"
  shows "set (join '' & '' as) \<inter> {CHR ''|'', CHR ''('', CHR '')''} = {}"
proof -
  have "\<Union> (set ` set as) \<inter> {CHR ''|'', CHR ''('', CHR '')''} = {}"
    using assms by (auto simp: list_all_iff plain_def)
  then show ?thesis using set_join [of "'' & ''" as] by auto
qed

lemma fixupIntersections_join:
  assumes "as \<noteq> []" "list_all plain as"
  shows "fixupIntersections (join '' & '' as) = join '' & '' (sort as)"
proof -
  let ?s = "join '' & '' as"
  have "\<not> startsWith ?s ''(''"
  proof
    assume "startsWith ?s ''(''"
    then have "CHR ''('' \<in> set ?s"
      by (cases ?s) (auto simp: startsWith_def)
    with plain_join [OF assms(2)] show False by auto
  qed
  moreover have "split '' & '' ?s = as"
    using assms by (intro split_join) (auto simp: list_all_iff plain_def)
  ultimately show ?thesis
    by (subst fixupIntersections.simps) simp
qed

lemma fixupIntersections_member:
  "well_formed_member m \<Longrightarrow>
   fixupIntersections (render_member m) = render_member (fst m, sort (snd m))"
  by (simp add: render_member_def well_formed_member_def fixupIntersections_wrap
      fixupIntersections_join)

lemma set_wrap: "set (wrap n s) \<subseteq> set s \<union> {CHR ''('', CHR '')''}"
  by (induction n) auto

lemma bar_free_member:
  assumes "well_formed_member m"
  shows "CHR ''|'' \<notin> set (render_member m)"
proof -
  have "CHR ''|'' \<notin> set (join '' & '' (snd m))"
    using plain_join [of "snd m"] assms by (auto simp: well_formed_member_def)
  then show ?thesis
    using set_wrap [of "fst m" "join '' & '' (snd m)"] by (auto simp: render_member_def)
qed

lemma well_formed_sorted:
  assumes "well_formed_member m"
  shows "well_formed_member (fst m, sort (snd m))"
proof -
  have "length (sort (snd m)) = length (snd m)" by simp
  then have "sort (snd m) \<noteq> []" using assms
    unfolding well_formed_member_def by (metis length_0_conv)
  then show ?thesis using assms by (simp add: well_formed_member_def list_all_iff)
qed

lemma fixupUnions_join:
  assumes "xs \<noteq> []" "\<forall>x\<in>set xs. CHR ''|'' \<notin> set x"
  shows "fixupUnions (join '' | '' xs) = join '' | '' (sort (map fixupIntersections xs))"
proof -
  have "split '' | '' (join '' | '' xs) = xs"
    using assms by (intro split_join) auto
  then show ?thesis by (simp add: fixupUnions_def)
qed

lemma fixupUnions_fixed:
  assumes "xs \<noteq> []" "\<forall>x\<in>set xs. CHR ''|'' \<notin> set x \<and> fixupIntersections x = x" "sorted xs"
  shows "fixupUnions (join '' | '' xs) = join '' | '' xs"
proof -
  have "map fixupIntersections xs = xs"
    using assms(2) by (simp add: map_idI)
  moreover have "sort xs = xs"
    using assms(3) by (simp add: sort_key_id_if_sorted)
  ultimately show ?thesis
    using fixupUnions_join [of xs] assms by simp
qed

lemma fixupUnions_render:
  assumes "ms \<noteq> []" "list_all well_formed_member ms"
  shows "fixupUnions (render_union ms)
         = join '' | '' (sort (map (\<lambda>m. render_member (fst m, sort (snd m))) ms))"
proof -
  have "map fixupIntersections (map render_member ms)
        = map (\<lambda>m. render_member (fst m, sort (snd m))) ms"
    using assms(2) by (simp add: list_all_iff fixupIntersections_member)
  then have "sort (map fixupIntersections (map render_member ms))
        = sort (map (\<lambda>m. render_member (fst m, sort (snd m))) ms)"
    by (rule arg_cong)
  moreover have "\<forall>x\<in>set (map render_member ms). CHR ''|'' \<notin> set x"
    using assms(2) by (auto simp: list_all_iff bar_free_member)
  ultimately show ?thesis
    using fixupUnions_join [of "map render_member ms"] assms(1)
    by (simp only: render_union_def map_is_Nil_conv simp_thms)
qed

lemma fixupUnions_idem_render:
  assumes "ms \<noteq> []" "list_all well_formed_member ms"
  shows "fixupUnions (fixupUnions (render_union ms)) = fixupUnions (render_union ms)"
proof -
  define T where "T = sort (map (\<lambda>m. render_member (fst m, sort (snd m))) ms)"
  have setT: "set T = (\<lambda>m. render_member (fst m, sort (snd m))) ` set ms"
    by (simp add: T_def)
  have fixed: "\<forall>x\<in>set T. CHR ''|'' \<notin> set x \<and> fixupIntersections x = x"
  proof
    fix x assume "x \<in> set T"
    then obtain m where m: "m \<in> set ms" "x = render_member (fst m, sort (snd m))"
      unfolding setT by blast
    have "well_formed_member m"
      using assms(2) m(1) by (simp add: list_all_iff)
    then have wf: "well_formed_member (fst m, sort (snd m))"
      by (rule well_formed_sorted)
    have ss: "sort (sort (snd m)) = sort (snd m)"
      by (simp add: sort_key_id_if_sorted)
    have "fixupIntersections x = x"
      using fixupIntersections_member [OF wf] by (simp add: m(2) ss)
    moreover have "CHR ''|'' \<notin> set x"
      unfolding m(2) by (rule bar_free_member [OF wf])
    ultimately show "CHR ''|'' \<notin> set x \<and> fixupIntersections x = x"
      by simp
  qed
  have "length T = length ms"
    by (simp add: T_def)
  then have ne: "T \<noteq> []"
    using assms(1) by (metis length_0_conv)
  have srt: "sorted T"
    by (simp add: T_def)
  have "fixupUnions (join '' | '' T) = join '' | '' T"
    using ne fixed srt by (rule fixupUnions_fixed)
  moreover have "fixupUnions (render_union ms) = join '' | '' T"
    unfolding T_def by (rule fixupUnions_render [OF assms])
  ultimately show ?thesis
    by (simp only:)
qed

lemma well_formed_key:
  assumes "image_mset member_key (mset ms') = image_mset member_key (mset ms)"
    and "list_all well_formed_member ms"
  shows "list_all well_formed_member ms'"
  unfolding list_all_iff
proof
  fix m' assume "m' \<in> set ms'"
  then have "member_key m' \<in># image_mset member_key (mset ms)"
    using assms(1) by (metis image_eqI in_multiset_in_set set_image_mset)
  then obtain m where m: "m \<in> set ms" "member_key m' = member_key m"
    by auto
  then have "mset (snd m') = mset (snd m)"
    by (simp add: member_key_def)
  then have "set (snd m') = set (snd m)" "snd m' = [] \<longleftrightarrow> snd m = []"
    by (metis set_mset_mset, metis mset_zero_iff)
  with m(1) assms(2) show "well_formed_member m'"
    by (auto simp: well_formed_member_def list_all_iff)
qed

lemma sort_cong_mset: "mset xs = mset ys \<Longrightarrow> sort xs = sort (ys :: string list)"
  by (rule properties_for_sort) simp_all

lemma fixupUnions_reorder_render:
  assumes "image_mset member_key (mset ms') = image_mset member_key (mset ms)"
    and "ms \<noteq> []" "list_all well_formed_member ms"
  shows "fixupUnions (render_union ms') = fixupUnions (render_union ms)"
proof -
  define g :: "nat \<times> string multiset \<Rightarrow> string"
    where "g k = wrap (fst k) (join '' & '' (sorted_list_of_multiset (snd k)))" for k
  define f :: "nat \<times> string list \<Rightarrow> string"
    where "f m = render_member (fst m, sort (snd m))" for m
  have fg: "f = g \<circ> member_key"
    by (rule ext) (simp add: f_def g_def render_member_def member_key_def)
  have wf': "list_all well_formed_member ms'"
    using assms(1,3) by (rule well_formed_key)
  have ne': "ms' \<noteq> []"
    using assms(1,2) by (metis image_mset_is_empty_iff mset_zero_iff)
  have "mset (map f ms') = image_mset g (image_mset member_key (mset ms'))"
    unfolding fg by (simp only: mset_map multiset.map_comp)
  also have "\<dots> = image_mset g (image_mset member_key (mset ms))"
    by (simp only: assms(1))
  also have "\<dots> = mset (map f ms)"
    unfolding fg by (simp only: mset_map multiset.map_comp)
  finally have "sort (map f ms') = sort (map f ms)"
    by (rule sort_cong_mset)
  moreover have "fixupUnions (render_union ms) = join '' | '' (sort (map f ms))"
    using fixupUnions_render [OF assms(2,3)] by (simp only: f_def [abs_def])
  moreover have "fixupUnions (render_union ms') = join '' | '' (sort (map f ms'))"
    using fixupUnions_render [OF ne' wf'] by (simp only: f_def [abs_def])
  ultimately show ?thesis
    by (simp only:)
qed

lemma fixupUnions_split_reorder:
  "mset (split '' | '' s) = mset (split '' | '' t) \<Longrightarrow> fixupUnions s = fixupUnions t"
proof -
  assume "mset (split '' | '' s) = mset (split '' | '' t)"
  then have "mset (map fixupIntersections (split '' | '' s))
             = mset (map fixupIntersections (split '' | '' t))"
    by (simp only: mset_map)
  then have "sort (map fixupIntersections (split '' | '' s))
             = sort (map fixupIntersections (split '' | '' t))"
    by (rule sort_cong_mset)
  then show ?thesis by (simp add: fixupUnions_def)
qed

lemma fixupUnions_example_union: "fixupUnions ''B | A'' = fixupUnions ''A | B''"
  by code_simp

lemma fixupUnions_example_nested: "fixupUnions ''(A & B) | C'' = fixupUnions ''C | (B & A)''"
  by code_simp

text \<open>
  C2, as stated, at a type text TypeScript prints for an intersection of two function
  types: normalizing once gives \<^verbatim>\<open>(((y: string) => void & (x: number) => void))\<close>, and
  normalizing that gives \<^verbatim>\<open>(((x: number) => void & (y: string) => void))\<close>. The normalizer
  is not idempotent on every string.
\<close>

theorem fixupUnions_not_idempotent:
  "fixupUnions (fixupUnions ''((x: number) => void) & ((y: string) => void)'')
     \<noteq> fixupUnions ''((x: number) => void) & ((y: string) => void)''"
  by code_simp

text \<open>
  C2, amended. The normalizer is invariant under member reordering: two texts whose pieces
  between \<^verbatim>\<open> | \<close> are the same up to order have the same normal form; for a union of
  members, each an intersection of parts free of \<^verbatim>\<open>&\<close>, \<^verbatim>\<open>|\<close> and parentheses inside any
  number of surrounding parentheses, reordering the members and reordering the parts of a
  member do not change the normal form, and on such a text the normalizer is idempotent;
  \<^verbatim>\<open>normalize("B | A") = normalize("A | B")\<close> and
  \<^verbatim>\<open>normalize("(A & B) | C") = normalize("C | (B & A)")\<close>.
\<close>

theorem fixupUnions_canonical:
  "(ms \<noteq> [] \<and> list_all well_formed_member ms \<longrightarrow>
      fixupUnions (fixupUnions (render_union ms)) = fixupUnions (render_union ms) \<and>
      (\<forall>ms'. image_mset member_key (mset ms') = image_mset member_key (mset ms) \<longrightarrow>
         fixupUnions (render_union ms') = fixupUnions (render_union ms))) \<and>
   (mset (split '' | '' s) = mset (split '' | '' t) \<longrightarrow> fixupUnions s = fixupUnions t) \<and>
   fixupUnions ''B | A'' = fixupUnions ''A | B'' \<and>
   fixupUnions ''(A & B) | C'' = fixupUnions ''C | (B & A)''"
  using fixupUnions_idem_render [of ms] fixupUnions_reorder_render [of _ ms]
    fixupUnions_split_reorder [of s t] fixupUnions_example_union fixupUnions_example_nested
  by blast

text \<open>
  The theorem at the members \<^verbatim>\<open>(A & B)\<close> and \<^verbatim>\<open>C\<close>, reordered to \<^verbatim>\<open>C\<close> and \<^verbatim>\<open>(B & A)\<close>, and
  at the texts \<^verbatim>\<open>x | y | x\<close> and \<^verbatim>\<open>x | x | y\<close>.
\<close>

theorem fixupUnions_canonical_witness:
  "fixupUnions (fixupUnions ''(A & B) | C'') = fixupUnions ''(A & B) | C'' \<and>
   fixupUnions ''C | (B & A)'' = fixupUnions ''(A & B) | C'' \<and>
   fixupUnions ''x | y | x'' = fixupUnions ''x | x | y''"
proof -
  let ?ms = "[(1, [''A'', ''B'']), (0, [''C''])] :: (nat \<times> string list) list"
  let ?ms' = "[(0, [''C'']), (1, [''B'', ''A''])] :: (nat \<times> string list) list"
  have wf: "?ms \<noteq> [] \<and> list_all well_formed_member ?ms"
    by (simp add: well_formed_member_def plain_def)
  have key: "image_mset member_key (mset ?ms') = image_mset member_key (mset ?ms)"
    by (simp add: member_key_def add_mset_commute)
  have r: "render_union ?ms = ''(A & B) | C''" "render_union ?ms' = ''C | (B & A)''"
    by (simp_all add: render_union_def render_member_def numeral_eq_Suc)
  have sp: "mset (split '' | '' ''x | y | x'') = mset (split '' | '' ''x | x | y'')"
    by code_simp
  from fixupUnions_canonical [of ?ms "''x | y | x''" "''x | x | y''"] wf key sp
  show ?thesis unfolding r [symmetric] by blast
qed

section \<open>Properties of the Node Matcher\<close>

declare iterate.simps [simp del]

lemma subtrees_children: "set (subtrees (children n)) \<subseteq> set (subtree n)"
  by (cases n) auto

lemma subtrees_children_unwrap: "set (subtrees (children (unwrap n))) \<subseteq> set (subtree n)"
proof (cases n)
  case (ExpressionStatement s e t x)
  then show ?thesis using subtrees_children [of x] by auto
next
  case (OtherNode s e t cs)
  then show ?thesis by auto
qed

lemma iterate_unmatched:
  "map_of pending (lineOfPosition (getStart n) sf) = None \<Longrightarrow>
   iterate sf n (pending, unmet) = forEachChild_iterate sf (children n) (pending, unmet)"
  by (simp add: iterate.simps)

lemma iterate_matched:
  "map_of pending (lineOfPosition (getStart n) sf) = Some e \<Longrightarrow>
   iterate sf n (pending, unmet) =
     forEachChild_iterate sf (children (unwrap n))
       (AList.delete (lineOfPosition (getStart n) sf) pending,
        (if fixupUnions (typeText (unwrap n)) \<noteq> e
         then unmet @ [\<lparr>node = unwrap n, expected = e, actual = fixupUnions (typeText (unwrap n))\<rparr>]
         else unmet))"
  by (simp add: iterate.simps Let_def)





lemma subtree_self: "n \<in> set (subtree n)"
  by (cases n) simp_all


lemma map_le_SomeD: "m \<subseteq>\<^sub>m m' \<Longrightarrow> m k = Some v \<Longrightarrow> m' k = Some v"
  by (metis map_le_def domI)








text \<open>The traversal is the flat loop over the nodes, parents first.\<close>

lemma matchNodes_append:
  "matchNodes sf (xs @ ys) st = matchNodes sf ys (matchNodes sf xs st)"
proof (induction xs arbitrary: st)
  case Nil
  show ?case by simp
next
  case (Cons x xs)
  obtain p um where st: "st = (p, um)" by (cases st)
  show ?case
    unfolding st by (simp add: Cons.IH Let_def split: option.splits)
qed

lemma subtree_children: "subtree n = n # subtrees (children n)"
  by (cases n) simp_all

lemma matchNodes_unmatched:
  "map_of pending (lineOfPosition (getStart n) sf) = None \<Longrightarrow>
   matchNodes sf (n # ns) (pending, unmet) = matchNodes sf ns (pending, unmet)"
  by simp

lemma matchNodes_matched:
  "map_of pending (lineOfPosition (getStart n) sf) = Some e \<Longrightarrow>
   matchNodes sf (n # ns) (pending, unmet) =
     matchNodes sf ns
       (AList.delete (lineOfPosition (getStart n) sf) pending,
        (if fixupUnions (typeText (unwrap n)) \<noteq> e
         then unmet @ [\<lparr>node = unwrap n, expected = e, actual = fixupUnions (typeText (unwrap n))\<rparr>]
         else unmet))"
  by (simp add: Let_def)

lemma iterate_matchNodes:
  fixes st st' :: "(nat \<times> string) list \<times> unmet_expectation list"
  shows "(\<forall>m\<in>set (subtree n). lineOfPosition (getStart (unwrap m)) sf = lineOfPosition (getStart m) sf)
      \<longrightarrow> iterate sf n st = matchNodes sf (subtree n) st"
    and "(\<forall>m\<in>set (subtrees cs). lineOfPosition (getStart (unwrap m)) sf = lineOfPosition (getStart m) sf)
      \<longrightarrow> forEachChild_iterate sf cs st' = matchNodes sf (subtrees cs) st'"
proof (induction sf n st and sf cs st' rule: iterate_forEachChild_iterate.induct)
  case (1 sf n pending unmet)
  show ?case
  proof
    assume H: "\<forall>m\<in>set (subtree n). lineOfPosition (getStart (unwrap m)) sf = lineOfPosition (getStart m) sf"
    let ?line = "lineOfPosition (getStart n) sf"
    show "iterate sf n (pending, unmet) = matchNodes sf (subtree n) (pending, unmet)"
    proof (cases "map_of pending ?line")
      case None
      have "\<forall>m\<in>set (subtrees (children n)).
              lineOfPosition (getStart (unwrap m)) sf = lineOfPosition (getStart m) sf"
        using H subtrees_children [of n] by blast
      with "1.IH"(1) [OF refl None]
      have "forEachChild_iterate sf (children n) (pending, unmet)
            = matchNodes sf (subtrees (children n)) (pending, unmet)"
        by blast
      then show ?thesis
        by (simp only: iterate_unmatched [OF None] subtree_children [of n] matchNodes_unmatched [OF None])
    next
      case (Some e)
      let ?st = "(AList.delete ?line pending,
        (if fixupUnions (typeText (unwrap n)) \<noteq> e
         then unmet @ [\<lparr>node = unwrap n, expected = e, actual = fixupUnions (typeText (unwrap n))\<rparr>]
         else unmet))"
      have Hc: "\<forall>m\<in>set (subtrees (children (unwrap n))).
              lineOfPosition (getStart (unwrap m)) sf = lineOfPosition (getStart m) sf"
        using H subtrees_children_unwrap [of n] by blast
      have ih: "forEachChild_iterate sf (children (unwrap n)) ?st
            = matchNodes sf (subtrees (children (unwrap n))) ?st"
        using "1.IH"(2) [OF refl Some refl refl] Hc by blast
      have flat: "matchNodes sf (subtrees (children n)) ?st
                  = matchNodes sf (subtrees (children (unwrap n))) ?st"
      proof (cases n)
        case (OtherNode s e' t cs)
        then show ?thesis by simp
      next
        case (ExpressionStatement s e' t x)
        have "lineOfPosition (getStart x) sf = ?line"
          using H [rule_format, of n] subtree_self [of n] ExpressionStatement by simp
        then have "map_of (fst ?st) (lineOfPosition (getStart x) sf) = None"
          by (simp add: delete_conv')
        then have "matchNodes sf (x # subtrees (children x)) ?st
                   = matchNodes sf (subtrees (children x)) ?st"
          by (cases "fixupUnions (typeText (unwrap n)) = e") simp_all
        then show ?thesis
          using ExpressionStatement subtree_children [of x] by simp
      qed
      show ?thesis
        by (simp only: iterate_matched [OF Some] subtree_children [of n] matchNodes_matched [OF Some]
            ih flat)
    qed
  qed
next
  case (2 sf st)
  show ?case by simp
next
  case (3 sf c cs st)
  show ?case
  proof
    assume H: "\<forall>m\<in>set (subtrees (c # cs)).
        lineOfPosition (getStart (unwrap m)) sf = lineOfPosition (getStart m) sf"
    then have a: "iterate sf c st = matchNodes sf (subtree c) st"
      using "3.IH"(1) by simp
    from H have "forEachChild_iterate sf cs (iterate sf c st) = matchNodes sf (subtrees cs) (iterate sf c st)"
      using "3.IH"(2) by simp
    then show "forEachChild_iterate sf (c # cs) st = matchNodes sf (subtrees (c # cs)) st"
      by (simp add: a matchNodes_append)
  qed
qed

lemma matchNodes_line:
  assumes "\<forall>m\<in>set ms. lineOfPosition (getStart (unwrap m)) sf = lineOfPosition (getStart m) sf"
  shows "filter (\<lambda>u. lineOfPosition (getStart (node u)) sf = L) (snd (matchNodes sf ms (p, um)))
       = filter (\<lambda>u. lineOfPosition (getStart (node u)) sf = L) um
         @ (case map_of p L of
              None \<Rightarrow> []
            | Some e \<Rightarrow>
               (case find (\<lambda>m. lineOfPosition (getStart m) sf = L) ms of
                  None \<Rightarrow> []
                | Some m \<Rightarrow>
                    if fixupUnions (typeText (unwrap m)) \<noteq> e
                    then [\<lparr>node = unwrap m, expected = e, actual = fixupUnions (typeText (unwrap m))\<rparr>]
                    else []))"
  using assms
proof (induction ms arbitrary: p um)
  case Nil
  show ?case by (simp split: option.splits)
next
  case (Cons m ms)
  let ?l = "lineOfPosition (getStart m) sf"
  have Hm: "lineOfPosition (getStart (unwrap m)) sf = ?l"
    using Cons.prems by simp
  have Hms: "\<forall>m\<in>set ms. lineOfPosition (getStart (unwrap m)) sf = lineOfPosition (getStart m) sf"
    using Cons.prems by simp
  show ?case
  proof (cases "map_of p ?l")
    case None
    show ?thesis
      using None by (cases "?l = L") (simp_all add: Cons.IH [OF Hms] split: option.splits)
  next
    case (Some e)
    show ?thesis
    proof (cases "?l = L")
      case True
      have "map_of (AList.delete ?l p) L = None"
        using True by (simp add: delete_conv')
      then show ?thesis
        using Some True Hm
        by (simp add: Cons.IH [OF Hms] Let_def)
    next
      case False
      have "map_of (AList.delete ?l p) L = map_of p L"
        using False by (simp add: delete_conv')
      then show ?thesis
        using Some False Hm
        by (simp add: Cons.IH [OF Hms] Let_def split: option.splits)
    qed
  qed
qed

lemma matchNodes_pending:
  "map_of (fst (matchNodes sf ms (p, um))) L
   = (case find (\<lambda>m. lineOfPosition (getStart m) sf = L) ms of
        None \<Rightarrow> map_of p L | Some m \<Rightarrow> None)"
proof (induction ms arbitrary: p um)
  case Nil
  show ?case by simp
next
  case (Cons m ms)
  let ?l = "lineOfPosition (getStart m) sf"
  show ?case
  proof (cases "map_of p ?l")
    case None
    show ?thesis
      using None by (cases "?l = L") (simp_all add: Cons.IH split: option.splits)
  next
    case (Some e)
    show ?thesis
      using Some by (cases "?l = L") (simp_all add: Cons.IH Let_def delete_conv' split: option.splits)
  qed
qed

text \<open>
  C1, as stated, on the one-statement file \<^verbatim>\<open>x;\<close> whose expression has the type text
  \<^verbatim>\<open>number | string\<close>, with the assertion \<^verbatim>\<open>string | number\<close> on its line: the two texts have
  the same normal form, and an unmet expectation is recorded all the same. Only the actual
  text is normalized; the expected text is compared as written.
\<close>

theorem iterate_expected_verbatim:
  "fixupUnions ''string | number'' = fixupUnions (typeText (OtherNode 0 1 ''number | string'' []))
   \<and> unmetExpectations (getExpectTypeFailures
        \<lparr>sourceText = ''x;'', isDeclarationFile = False, lineStarts = [0],
         statements = [ExpressionStatement 0 2 ''void'' (OtherNode 0 1 ''number | string'' [])]\<rparr>
        [(0, ''string | number'')])
     = [\<lparr>node = OtherNode 0 1 ''number | string'' [], expected = ''string | number'',
         actual = ''number | string''\<rparr>]"
proof -
  have a: "fixupUnions ''string | number'' = ''number | string''"
    and b: "fixupUnions ''number | string'' = ''number | string''"
    by code_simp+
  show ?thesis
    by (simp add: a b getExpectTypeFailures_def iterate.simps lineOfPosition_def Let_def)
qed

text \<open>
  C1, amended. Take a tree in which every expression statement starts on the line where
  its expression starts (in a TypeScript tree both start at the same position). For every
  line \<open>L\<close>, the unmet expectations recorded at nodes of line \<open>L\<close> are decided by one node,
  the first node in the order of the traversal that starts on \<open>L\<close>. If the line has an
  expected text, the Node Matcher normalizes the rendered type text of that node (of the
  expression, for an expression statement) and compares it with the expected text as
  written in the comment: it records one TypeMismatch when the two differ, and nothing
  when they are equal, whatever the types of the later nodes of the line. A line without
  an expected text or without a node gets no unmet expectation, and an assertion is left
  unused exactly when no node starts on its line.
\<close>

theorem getExpectTypeFailures_first_node_decides:
  assumes "\<forall>m\<in>set (subtrees (statements sf)).
      lineOfPosition (getStart (unwrap m)) sf = lineOfPosition (getStart m) sf"
  shows "filter (\<lambda>u. lineOfPosition (getStart (node u)) sf = L)
           (unmetExpectations (getExpectTypeFailures sf pending))
       = (case map_of pending L of
            None \<Rightarrow> []
          | Some e \<Rightarrow>
             (case find (\<lambda>m. lineOfPosition (getStart m) sf = L) (subtrees (statements sf)) of
                None \<Rightarrow> []
              | Some m \<Rightarrow>
                  if fixupUnions (typeText (unwrap m)) \<noteq> e
                  then [\<lparr>node = unwrap m, expected = e, actual = fixupUnions (typeText (unwrap m))\<rparr>]
                  else []))
     \<and> (L \<in> set (unusedAssertions (getExpectTypeFailures sf pending))
          \<longleftrightarrow> map_of pending L \<noteq> None
              \<and> find (\<lambda>m. lineOfPosition (getStart m) sf = L) (subtrees (statements sf)) = None)"
proof -
  let ?R = "matchNodes sf (subtrees (statements sf)) (pending, [])"
  have flat: "forEachChild_iterate sf (statements sf) (pending, []) = ?R"
    using iterate_matchNodes(2) [of "statements sf" sf "(pending, [])"] assms by blast
  have r: "getExpectTypeFailures sf pending
           = \<lparr>unmetExpectations = snd ?R, unusedAssertions = map fst (fst ?R)\<rparr>"
    by (simp add: getExpectTypeFailures_def flat split_beta)
  have a: "filter (\<lambda>u. lineOfPosition (getStart (node u)) sf = L) (snd ?R)
       = (case map_of pending L of
            None \<Rightarrow> []
          | Some e \<Rightarrow>
             (case find (\<lambda>m. lineOfPosition (getStart m) sf = L) (subtrees (statements sf)) of
                None \<Rightarrow> []
              | Some m \<Rightarrow>
                  if fixupUnions (typeText (unwrap m)) \<noteq> e
                  then [\<lparr>node = unwrap m, expected = e, actual = fixupUnions (typeText (unwrap m))\<rparr>]
                  else []))"
    using matchNodes_line [OF assms, of L pending "[]"] by simp
  have "L \<in> set (map fst (fst ?R)) \<longleftrightarrow> map_of (fst ?R) L \<noteq> None"
    by (simp add: map_of_eq_None_iff)
  also have "\<dots> \<longleftrightarrow> map_of pending L \<noteq> None
              \<and> find (\<lambda>m. lineOfPosition (getStart m) sf = L) (subtrees (statements sf)) = None"
    unfolding matchNodes_pending by (simp split: option.splits)
  finally show ?thesis
    using a by (simp add: r)
qed

text \<open>
  The theorem at line 0 of \<^verbatim>\<open>a; b; // $ExpectType string\<close> and of
  \<^verbatim>\<open>b; a; // $ExpectType string\<close>, where \<^verbatim>\<open>a\<close> has the type \<^verbatim>\<open>string\<close> and \<^verbatim>\<open>b\<close> the type
  \<^verbatim>\<open>number\<close>: the first statement decides, so the first file has no mismatch and the
  second has the one of \<^verbatim>\<open>b\<close>.
\<close>

theorem getExpectTypeFailures_first_node_decides_witness:
  "filter (\<lambda>u. lineOfPosition (getStart (node u))
        \<lparr>sourceText = ''a; b; // $ExpectType string'', isDeclarationFile = False, lineStarts = [0],
         statements = [ExpressionStatement 0 2 ''void'' (OtherNode 0 1 ''string'' []),
                       ExpressionStatement 3 5 ''void'' (OtherNode 3 4 ''number'' [])]\<rparr> = 0)
     (unmetExpectations (getExpectTypeFailures
        \<lparr>sourceText = ''a; b; // $ExpectType string'', isDeclarationFile = False, lineStarts = [0],
         statements = [ExpressionStatement 0 2 ''void'' (OtherNode 0 1 ''string'' []),
                       ExpressionStatement 3 5 ''void'' (OtherNode 3 4 ''number'' [])]\<rparr>
        [(0, ''string'')])) = []
   \<and> 0 \<notin> set (unusedAssertions (getExpectTypeFailures
        \<lparr>sourceText = ''a; b; // $ExpectType string'', isDeclarationFile = False, lineStarts = [0],
         statements = [ExpressionStatement 0 2 ''void'' (OtherNode 0 1 ''string'' []),
                       ExpressionStatement 3 5 ''void'' (OtherNode 3 4 ''number'' [])]\<rparr>
        [(0, ''string'')]))
   \<and> filter (\<lambda>u. lineOfPosition (getStart (node u))
        \<lparr>sourceText = ''b; a; // $ExpectType string'', isDeclarationFile = False, lineStarts = [0],
         statements = [ExpressionStatement 0 2 ''void'' (OtherNode 0 1 ''number'' []),
                       ExpressionStatement 3 5 ''void'' (OtherNode 3 4 ''string'' [])]\<rparr> = 0)
     (unmetExpectations (getExpectTypeFailures
        \<lparr>sourceText = ''b; a; // $ExpectType string'', isDeclarationFile = False, lineStarts = [0],
         statements = [ExpressionStatement 0 2 ''void'' (OtherNode 0 1 ''number'' []),
                       ExpressionStatement 3 5 ''void'' (OtherNode 3 4 ''string'' [])]\<rparr>
        [(0, ''string'')]))
     = [\<lparr>node = OtherNode 0 1 ''number'' [], expected = ''string'', actual = ''number''\<rparr>]"
proof -
  let ?sf = "\<lparr>sourceText = ''a; b; // $ExpectType string'', isDeclarationFile = False, lineStarts = [0],
         statements = [ExpressionStatement 0 2 ''void'' (OtherNode 0 1 ''string'' []),
                       ExpressionStatement 3 5 ''void'' (OtherNode 3 4 ''number'' [])]\<rparr>"
  let ?sf' = "\<lparr>sourceText = ''b; a; // $ExpectType string'', isDeclarationFile = False, lineStarts = [0],
         statements = [ExpressionStatement 0 2 ''void'' (OtherNode 0 1 ''number'' []),
                       ExpressionStatement 3 5 ''void'' (OtherNode 3 4 ''string'' [])]\<rparr>"
  have b: "fixupUnions ''string'' = ''string''" "fixupUnions ''number'' = ''number''"
    by code_simp+
  have h: "\<forall>m\<in>set (subtrees (statements ?sf)).
      lineOfPosition (getStart (unwrap m)) ?sf = lineOfPosition (getStart m) ?sf"
    by (simp add: lineOfPosition_def)
  have h': "\<forall>m\<in>set (subtrees (statements ?sf')).
      lineOfPosition (getStart (unwrap m)) ?sf' = lineOfPosition (getStart m) ?sf'"
    by (simp add: lineOfPosition_def)
  show ?thesis
    using getExpectTypeFailures_first_node_decides [OF h, of 0 "[(0, ''string'')]"]
      getExpectTypeFailures_first_node_decides [OF h', of 0 "[(0, ''string'')]"]
    by (simp add: lineOfPosition_def b)
qed

section \<open>Properties of the Assertion Scanner\<close>

subsection \<open>The directive grammar\<close>

lemma startsWith_iff: "startsWith s p \<longleftrightarrow> (\<exists>r. s = p @ r)"
  unfolding startsWith_def by (metis append_eq_conv_conj append_take_drop_id)

lemma startsWith_append:
  "startsWith s (p @ q) \<longleftrightarrow> startsWith s p \<and> startsWith (drop (length p) s) q"
  unfolding startsWith_iff by auto

lemma matchDirective_Error:
  "matchDirective c = Some ExpectError \<longleftrightarrow> startsWith c ''// $ExpectError''"
proof -
  have a: "startsWith c ''// $ExpectError''
        \<longleftrightarrow> startsWith c ''// $Expect'' \<and> startsWith (drop (length ''// $Expect'') c) ''Error''"
    using startsWith_append [of c "''// $Expect''" "''Error''"] by simp
  have b: "\<not> (startsWith r ''Type '' \<and> startsWith r ''Error'')" for r
    by (auto simp: startsWith_iff)
  show ?thesis
    unfolding a using b by (auto simp: matchDirective_def Let_def)
qed

lemma matchDirective_Type:
  "matchDirective c = Some (ExpectType t)
     \<longleftrightarrow> startsWith c ''// $ExpectType ''
         \<and> t = takeWhile (\<lambda>x. \<not> lineTerminator x) (drop (length ''// $ExpectType '') c)"
proof -
  have a: "startsWith c ''// $ExpectType ''
        \<longleftrightarrow> startsWith c ''// $Expect'' \<and> startsWith (drop (length ''// $Expect'') c) ''Type ''"
    using startsWith_append [of c "''// $Expect''" "''Type ''"] by simp
  show ?thesis
    unfolding a by (auto simp: matchDirective_def Let_def)
qed

lemma matchDirective_None:
  "matchDirective c = None
     \<longleftrightarrow> \<not> startsWith c ''// $ExpectType '' \<and> \<not> startsWith c ''// $ExpectError''"
proof (cases "matchDirective c")
  case None
  then show ?thesis
    using matchDirective_Error [of c] matchDirective_Type [of c] by auto
next
  case (Some d)
  then show ?thesis
    using matchDirective_Error [of c] matchDirective_Type [of c] by (cases d) auto
qed

lemma matchDirective_Type_verbatim:
  assumes "\<forall>x\<in>set c. \<not> lineTerminator x"
  shows "matchDirective c = Some (ExpectType t) \<longleftrightarrow> c = ''// $ExpectType '' @ t"
proof -
  have "takeWhile (\<lambda>x. \<not> lineTerminator x) (drop n c) = drop n c" for n
    using assms by (simp add: takeWhile_eq_all_conv) (meson in_set_dropD)
  then show ?thesis
    unfolding matchDirective_Type startsWith_def
    by (metis append_eq_conv_conj append_take_drop_id)
qed

text \<open>
  C8, as stated, at the comment \<^verbatim>\<open>// $ExpectError sometimes\<close> trailing a token on line 0:
  the comment has characters after \<^verbatim>\<open>$ExpectError\<close> and is recognized all the same; line 0
  becomes an error line. The pattern is anchored at the start of the comment only.
\<close>

theorem matchDirective_accepts_suffix:
  "matchDirective ''// $ExpectError sometimes'' = Some ExpectError
   \<and> errorLines (scanLoop [0]
        [\<lparr>kind = Token, tokenPos = 0, tokenText = ''f''\<rparr>,
         \<lparr>kind = WhitespaceTrivia, tokenPos = 1, tokenText = '' ''\<rparr>,
         \<lparr>kind = SingleLineCommentTrivia, tokenPos = 2, tokenText = ''// $ExpectError sometimes''\<rparr>,
         \<lparr>kind = EndOfFileToken, tokenPos = 27, tokenText = []\<rparr>]
        (- 1) 0 \<lparr>errorLines = [], typeAssertions = [], duplicates = []\<rparr>) = [0]"
  by (simp add: matchDirective_def startsWith_def getLine_def advance.simps Set_add_def)

text \<open>
  C8, amended. A single-line comment is recognized as a directive if and only if its text
  begins with \<^verbatim>\<open>// $ExpectType\<close> and a space, or with \<^verbatim>\<open>// $ExpectError\<close>. For
  \<^verbatim>\<open>$ExpectType\<close> the expected text is the rest of the comment, verbatim (up to a line
  terminator, which a single-line comment does not contain). Whatever follows
  \<^verbatim>\<open>// $ExpectError\<close> is ignored. A comment that does not begin with \<^verbatim>\<open>// $Expect\<close>, so one
  with any other prefix, is not recognized.
\<close>

theorem matchDirective_recognizes:
  "(matchDirective c = Some ExpectError \<longleftrightarrow> startsWith c ''// $ExpectError'')
   \<and> (matchDirective c = Some (ExpectType t)
        \<longleftrightarrow> startsWith c ''// $ExpectType ''
            \<and> t = takeWhile (\<lambda>x. \<not> lineTerminator x) (drop (length ''// $ExpectType '') c))
   \<and> ((\<forall>x\<in>set c. \<not> lineTerminator x)
        \<longrightarrow> (matchDirective c = Some (ExpectType t) \<longleftrightarrow> c = ''// $ExpectType '' @ t))
   \<and> (matchDirective c = None
        \<longleftrightarrow> \<not> startsWith c ''// $ExpectType '' \<and> \<not> startsWith c ''// $ExpectError'')
   \<and> (\<not> startsWith c ''// $Expect'' \<longrightarrow> matchDirective c = None)"
  using matchDirective_Error [of c] matchDirective_Type [of c t] matchDirective_None [of c]
    matchDirective_Type_verbatim [of c t]
  by (auto simp: matchDirective_def)

text \<open>The theorem at \<^verbatim>\<open>// $ExpectType string[]\<close>, \<^verbatim>\<open>// $ExpectError\<close> and, with two spaces,
  \<^verbatim>\<open>//  $ExpectError\<close>.\<close>

theorem matchDirective_recognizes_witness:
  "matchDirective ''// $ExpectType string[]'' = Some (ExpectType ''string[]'')
   \<and> matchDirective ''// $ExpectError'' = Some ExpectError
   \<and> matchDirective ''//  $ExpectError'' = None"
proof -
  have a: "\<forall>x\<in>set ''// $ExpectType string[]''. \<not> lineTerminator x"
    by (simp add: lineTerminator_def)
  have b: "startsWith ''// $ExpectError'' ''// $ExpectError''"
    and c: "\<not> startsWith ''//  $ExpectError'' ''// $Expect''"
    by (simp_all add: startsWith_def)
  show ?thesis
    using matchDirective_recognizes [of "''// $ExpectType string[]''" "''string[]''"]
      matchDirective_recognizes [of "''// $ExpectError''" "[]"]
      matchDirective_recognizes [of "''//  $ExpectError''" "[]"] a b c
    by simp
qed

subsection \<open>The applicable line\<close>

declare advance.simps [simp del]

lemma advance_bound: "curLine < length ls \<Longrightarrow> advance ls curLine pos < length ls"
  by (induction ls curLine pos rule: advance.induct) (subst advance.simps, simp)

lemma advance_le: "ls ! curLine \<le> pos \<Longrightarrow> ls ! advance ls curLine pos \<le> pos"
  by (induction ls curLine pos rule: advance.induct) (subst advance.simps, simp)

lemma advance_next:
  "Suc (advance ls curLine pos) < length ls \<Longrightarrow> pos < ls ! Suc (advance ls curLine pos)"
proof (induction ls curLine pos rule: advance.induct)
  case (1 ls curLine pos)
  show ?case
  proof (cases "curLine + 1 < length ls \<and> ls ! (curLine + 1) \<le> pos")
    case True
    then have eq: "advance ls curLine pos = advance ls (curLine + 1) pos"
      by (subst advance.simps) simp
    show ?thesis
      using "1.IH" [OF True] "1.prems" unfolding eq by simp
  next
    case False
    then have eq: "advance ls curLine pos = curLine"
      by (subst advance.simps) auto
    show ?thesis
      using False "1.prems" unfolding eq by auto
  qed
qed

lemma line_unique:
  assumes "sorted ls" "i < length ls" "ls ! i \<le> pos" "Suc i < length ls \<longrightarrow> pos < ls ! Suc i"
  shows "length (takeWhile (\<lambda>s. s \<le> pos) ls) = Suc i"
proof -
  have "takeWhile (\<lambda>s. s \<le> pos) ls = take (Suc i) ls"
  proof (rule takeWhile_eq_take_P_nth)
    fix j assume "j < Suc i" "j < length ls"
    then have "ls ! j \<le> ls ! i"
      using assms(1,2) by (simp add: sorted_nth_mono)
    then show "ls ! j \<le> pos" using assms(3) by simp
  next
    assume "Suc i < length ls"
    then show "\<not> ls ! Suc i \<le> pos" using assms(4) by simp
  qed
  then show ?thesis using assms(2) by simp
qed

lemma advance_lineOfPosition:
  assumes "sorted (lineStarts sf)" "curLine < length (lineStarts sf)" "lineStarts sf ! curLine \<le> pos"
  shows "advance (lineStarts sf) curLine pos = lineOfPosition pos sf"
  using line_unique [OF assms(1) advance_bound [OF assms(2)] advance_le [OF assms(3)]]
    advance_next [of "lineStarts sf" curLine pos]
  by (simp add: lineOfPosition_def)

lemma lineOfPosition_props:
  assumes "sorted (lineStarts sf)" "lineStarts sf \<noteq> []" "lineStarts sf ! 0 \<le> pos"
  shows "lineOfPosition pos sf < length (lineStarts sf)"
    and "lineStarts sf ! lineOfPosition pos sf \<le> pos"
    and "Suc (lineOfPosition pos sf) < length (lineStarts sf)
           \<Longrightarrow> pos < lineStarts sf ! Suc (lineOfPosition pos sf)"
proof -
  have z: "0 < length (lineStarts sf)" using assms(2) by simp
  have eq: "advance (lineStarts sf) 0 pos = lineOfPosition pos sf"
    by (rule advance_lineOfPosition [OF assms(1) z assms(3)])
  show "lineOfPosition pos sf < length (lineStarts sf)"
    using advance_bound [OF z, of pos] unfolding eq .
  show "lineStarts sf ! lineOfPosition pos sf \<le> pos"
    using advance_le [OF assms(3)] unfolding eq .
  show "Suc (lineOfPosition pos sf) < length (lineStarts sf)
           \<Longrightarrow> pos < lineStarts sf ! Suc (lineOfPosition pos sf)"
    using advance_next [of "lineStarts sf" 0 pos] unfolding eq .
qed

text \<open>A position lies before the start of line \<open>L\<close> exactly when its line is before \<open>L\<close>.\<close>

lemma before_line_start:
  assumes "sorted (lineStarts sf)" "lineStarts sf \<noteq> []" "lineStarts sf ! 0 \<le> p"
    and "L < length (lineStarts sf)"
  shows "p < lineStarts sf ! L \<longleftrightarrow> lineOfPosition p sf < L"
proof
  assume lt: "p < lineStarts sf ! L"
  show "lineOfPosition p sf < L"
  proof (rule ccontr)
    assume "\<not> lineOfPosition p sf < L"
    then have "L \<le> lineOfPosition p sf" by simp
    then have "lineStarts sf ! L \<le> lineStarts sf ! lineOfPosition p sf"
      using assms(1) lineOfPosition_props(1) [OF assms(1-3)] by (simp add: sorted_nth_mono)
    with lineOfPosition_props(2) [OF assms(1-3)] lt show False by simp
  qed
next
  assume lt: "lineOfPosition p sf < L"
  then have s: "Suc (lineOfPosition p sf) < length (lineStarts sf)" "Suc (lineOfPosition p sf) \<le> L"
    using assms(4) by simp_all
  have "p < lineStarts sf ! Suc (lineOfPosition p sf)"
    by (rule lineOfPosition_props(3) [OF assms(1-3) s(1)])
  also have "\<dots> \<le> lineStarts sf ! L"
    using assms(1,4) s(2) by (simp add: sorted_nth_mono)
  finally show "p < lineStarts sf ! L" .
qed

lemma lineOfPosition_mono:
  assumes "sorted (lineStarts sf)" "lineStarts sf \<noteq> []" "lineStarts sf ! 0 \<le> p" "p \<le> q"
  shows "lineOfPosition p sf \<le> lineOfPosition q sf"
proof (rule ccontr)
  assume "\<not> lineOfPosition p sf \<le> lineOfPosition q sf"
  then have lt: "lineOfPosition q sf < lineOfPosition p sf" by simp
  have q0: "lineStarts sf ! 0 \<le> q" using assms(3,4) by simp
  have "q < lineStarts sf ! lineOfPosition p sf"
    using before_line_start [OF assms(1,2) q0 lineOfPosition_props(1) [OF assms(1-3)]] lt by simp
  with lineOfPosition_props(2) [OF assms(1-3)] assms(4) show False by simp
qed

lemma directiveLines_append:
  "EndOfFileToken \<notin> kind ` set pre \<Longrightarrow>
   directiveLines ls (pre @ rest) prev cur
   = directiveLines ls pre prev cur
     @ directiveLines ls rest (fst (loopState ls pre prev cur)) (snd (loopState ls pre prev cur))"
proof (induction pre arbitrary: prev cur)
  case Nil
  show ?case by simp
next
  case (Cons t pre)
  then have ih: "directiveLines ls (pre @ rest) p c
   = directiveLines ls pre p c
     @ directiveLines ls rest (fst (loopState ls pre p c)) (snd (loopState ls pre p c))" for p c
    by simp
  from Cons.prems have "kind t \<noteq> EndOfFileToken" by auto
  then show ?case
    by (cases "kind t") (simp_all add: ih split: option.split prod.split)
qed

lemma loopState_prev:
  "EndOfFileToken \<notin> kind ` set pre \<Longrightarrow>
   fst (loopState ls pre prev cur)
   = (if filter setsPrevTokenPos pre = [] then prev
      else int (tokenPos (last (filter setsPrevTokenPos pre))))"
proof (induction pre arbitrary: prev cur)
  case Nil
  show ?case by simp
next
  case (Cons t pre)
  then have ih: "fst (loopState ls pre p c)
   = (if filter setsPrevTokenPos pre = [] then p
      else int (tokenPos (last (filter setsPrevTokenPos pre))))" for p c
    by simp
  have sp: "setsPrevTokenPos t \<longleftrightarrow> kind t \<noteq> WhitespaceTrivia
      \<and> kind t \<noteq> SingleLineCommentTrivia \<and> kind t \<noteq> EndOfFileToken"
    by (simp add: setsPrevTokenPos_def)
  from Cons.prems have "kind t \<noteq> EndOfFileToken" by auto
  then show ?case
    by (cases "kind t") (simp_all add: ih sp split: option.split prod.split)
qed

lemma getLine_snd: "snd (getLine ls prev cur pos) = advance ls cur pos"
  by (simp add: getLine_def Let_def)

lemma loopState_cur:
  assumes "sorted ls"
  shows "cur < length ls \<Longrightarrow> ls ! cur \<le> pos \<Longrightarrow> sorted (map tokenPos pre @ [pos]) \<Longrightarrow>
     (\<forall>t\<in>set pre. ls ! cur \<le> tokenPos t) \<Longrightarrow>
     snd (loopState ls pre prev cur) < length ls \<and> ls ! snd (loopState ls pre prev cur) \<le> pos"
proof (induction pre arbitrary: prev cur)
  case Nil
  then show ?case by simp
next
  case (Cons t pre)
  have srt: "sorted (map tokenPos pre @ [pos])"
    using Cons.prems(3) by simp
  have tp: "tokenPos t \<le> pos" "\<forall>t'\<in>set pre. tokenPos t \<le> tokenPos t'"
    using Cons.prems(3) by (auto simp: sorted_append)
  have same: "snd (loopState ls pre p cur) < length ls \<and> ls ! snd (loopState ls pre p cur) \<le> pos" for p
    using Cons.IH [OF Cons.prems(1,2) srt] Cons.prems(4) by simp
  let ?c = "advance ls cur (tokenPos t)"
  have c: "?c < length ls" "ls ! ?c \<le> tokenPos t"
    using advance_bound [OF Cons.prems(1)] advance_le [of ls cur "tokenPos t"] Cons.prems(4) by simp_all
  have adv: "snd (loopState ls pre p ?c) < length ls \<and> ls ! snd (loopState ls pre p ?c) \<le> pos" for p
    using Cons.IH [OF c(1) _ srt, of p] c(2) tp by fastforce
  show ?case
  proof (cases "kind t = SingleLineCommentTrivia \<and> matchDirective (tokenText t) \<noteq> None")
    case True
    then obtain d where d: "kind t = SingleLineCommentTrivia" "matchDirective (tokenText t) = Some d"
      by auto
    have "loopState ls (t # pre) prev cur = loopState ls pre prev ?c"
      using d getLine_snd [of ls prev cur "tokenPos t"] by (simp add: split_beta)
    then show ?thesis using adv by simp
  next
    case False
    then have "\<exists>p. loopState ls (t # pre) prev cur = loopState ls pre p cur
                 \<or> loopState ls (t # pre) prev cur = (prev, cur)"
      by (cases "kind t") (auto split: option.split)
    then show ?thesis using same Cons.prems(1,2) by auto
  qed
qed

lemma sorted_le_last:
  fixes xs :: "nat list"
  assumes "sorted xs" "x \<in> set xs"
  shows "x \<le> last xs"
proof -
  from assms(2) obtain i where i: "i < length xs" "xs ! i = x"
    by (auto simp: in_set_conv_nth)
  then have "xs \<noteq> []" by auto
  then have "last xs = xs ! (length xs - 1)" by (rule last_conv_nth)
  moreover have "xs ! i \<le> xs ! (length xs - 1)"
    using assms(1) i(1) by (intro sorted_nth_mono) auto
  ultimately show ?thesis using i(2) by simp
qed

lemma last_significant_line:
  assumes ls: "sorted (lineStarts sf)" "lineStarts sf \<noteq> []" "lineStarts sf ! 0 = 0"
    and srt: "sorted (map tokenPos (pre @ [t]))"
    and ne: "filter setsPrevTokenPos pre \<noteq> []"
  shows "(\<exists>t'\<in>set pre. setsPrevTokenPos t'
            \<and> lineOfPosition (tokenPos t') sf = lineOfPosition (tokenPos t) sf)
         \<longleftrightarrow> \<not> lineOfPosition (tokenPos (last (filter setsPrevTokenPos pre))) sf
               < lineOfPosition (tokenPos t) sf"
proof -
  let ?sigs = "filter setsPrevTokenPos pre"
  let ?L = "lineOfPosition (tokenPos t) sf"
  have z: "lineStarts sf ! 0 \<le> p" for p using ls(3) by simp
  have last_in: "last ?sigs \<in> set pre" "setsPrevTokenPos (last ?sigs)"
    using last_in_set [OF ne] by auto
  have le_t: "tokenPos t' \<le> tokenPos t" if "t' \<in> set pre" for t'
    using srt that by (auto simp: sorted_append)
  have "sorted (map tokenPos pre)" using srt by (simp add: sorted_append)
  then have "sorted (map tokenPos ?sigs)" by (rule sorted_filter)
  then have le_last: "tokenPos t' \<le> tokenPos (last ?sigs)" if "t' \<in> set ?sigs" for t'
    using that sorted_le_last [of "map tokenPos ?sigs" "tokenPos t'"] ne by (simp add: last_map)
  have last_le: "lineOfPosition (tokenPos (last ?sigs)) sf \<le> ?L"
    using lineOfPosition_mono [OF ls(1,2) z le_t [OF last_in(1)]] .
  show ?thesis
  proof
    assume "\<exists>t'\<in>set pre. setsPrevTokenPos t' \<and> lineOfPosition (tokenPos t') sf = ?L"
    then obtain t' where t': "t' \<in> set ?sigs" "lineOfPosition (tokenPos t') sf = ?L"
      by auto
    have "?L \<le> lineOfPosition (tokenPos (last ?sigs)) sf"
      using lineOfPosition_mono [OF ls(1,2) z le_last [OF t'(1)]] t'(2) by simp
    then show "\<not> lineOfPosition (tokenPos (last ?sigs)) sf < ?L" by simp
  next
    assume "\<not> lineOfPosition (tokenPos (last ?sigs)) sf < ?L"
    with last_le have "lineOfPosition (tokenPos (last ?sigs)) sf = ?L" by simp
    with last_in show "\<exists>t'\<in>set pre. setsPrevTokenPos t' \<and> lineOfPosition (tokenPos t') sf = ?L"
      by blast
  qed
qed

lemma getLine_after_prefix:
  assumes ls: "sorted (lineStarts sf)" "lineStarts sf \<noteq> []" "lineStarts sf ! 0 = 0"
    and srt: "sorted (map tokenPos (pre @ [t]))"
    and eof: "EndOfFileToken \<notin> kind ` set pre"
  shows "fst (getLine (lineStarts sf) (fst (loopState (lineStarts sf) pre (- 1) 0))
               (snd (loopState (lineStarts sf) pre (- 1) 0)) (tokenPos t))
         = (if \<exists>t'\<in>set pre. setsPrevTokenPos t'
                  \<and> lineOfPosition (tokenPos t') sf = lineOfPosition (tokenPos t) sf
            then lineOfPosition (tokenPos t) sf else lineOfPosition (tokenPos t) sf + 1)"
proof -
  let ?ls = "lineStarts sf"
  let ?sigs = "filter setsPrevTokenPos pre"
  let ?L = "lineOfPosition (tokenPos t) sf"
  let ?prev = "fst (loopState ?ls pre (- 1) 0)"
  let ?cur = "snd (loopState ?ls pre (- 1) 0)"
  have z: "?ls ! 0 \<le> p" for p using ls(3) by simp
  have srt': "sorted (map tokenPos pre @ [tokenPos t])" using srt by simp
  have cur: "?cur < length ?ls \<and> ?ls ! ?cur \<le> tokenPos t"
    using loopState_cur [OF ls(1) _ _ srt', of 0 "- 1"] ls(2,3) by simp
  have adv: "advance ?ls ?cur (tokenPos t) = ?L"
    using advance_lineOfPosition [OF ls(1)] cur by blast
  have L: "?L < length ?ls"
    by (rule lineOfPosition_props(1) [OF ls(1,2) z])
  have first: "fst (getLine ?ls p ?cur (tokenPos t))
               = (if int (?ls ! ?L) > p then ?L + 1 else ?L)" for p
    using L by (simp add: getLine_def Let_def adv)
  show ?thesis
  proof (cases "?sigs = []")
    case True
    then have "?prev = - 1" by (simp add: loopState_prev [OF eof])
    moreover have "\<not> (\<exists>t'\<in>set pre. setsPrevTokenPos t' \<and> lineOfPosition (tokenPos t') sf = ?L)"
      using True by (auto simp: filter_empty_conv)
    ultimately show ?thesis by (simp add: first [of "- 1"])
  next
    case False
    then have p: "?prev = int (tokenPos (last ?sigs))" by (simp add: loopState_prev [OF eof])
    have "int (?ls ! ?L) > ?prev \<longleftrightarrow> lineOfPosition (tokenPos (last ?sigs)) sf < ?L"
      using before_line_start [OF ls(1,2) z L, of "tokenPos (last ?sigs)"] by (simp add: p)
    then show ?thesis
      using last_significant_line [OF ls srt False] by (simp add: first [of ?prev])
  qed
qed

lemma directiveLines_comment:
  assumes "kind t = SingleLineCommentTrivia" "matchDirective (tokenText t) = Some d"
  shows "directiveLines ls (t # post) prev cur
         = (fst (getLine ls prev cur (tokenPos t)), d)
           # directiveLines ls post prev (snd (getLine ls prev cur (tokenPos t)))"
  using assms by (simp add: split_beta)

lemma scanLoop_example:
  "typeAssertions (scanLoop [0, 22]
      [\<lparr>kind = SingleLineCommentTrivia, tokenPos = 0, tokenText = ''// $ExpectType number''\<rparr>,
       \<lparr>kind = NewLineTrivia, tokenPos = 21, tokenText = [CHR 0x0A]\<rparr>,
       \<lparr>kind = Token, tokenPos = 22, tokenText = ''const''\<rparr>,
       \<lparr>kind = WhitespaceTrivia, tokenPos = 27, tokenText = '' ''\<rparr>,
       \<lparr>kind = Token, tokenPos = 28, tokenText = ''x''\<rparr>,
       \<lparr>kind = WhitespaceTrivia, tokenPos = 29, tokenText = '' ''\<rparr>,
       \<lparr>kind = Token, tokenPos = 30, tokenText = ''=''\<rparr>,
       \<lparr>kind = WhitespaceTrivia, tokenPos = 31, tokenText = '' ''\<rparr>,
       \<lparr>kind = Token, tokenPos = 32, tokenText = ''1''\<rparr>,
       \<lparr>kind = Token, tokenPos = 33, tokenText = '';''\<rparr>,
       \<lparr>kind = EndOfFileToken, tokenPos = 34, tokenText = []\<rparr>]
      (- 1) 0 \<lparr>errorLines = [], typeAssertions = [], duplicates = []\<rparr>) = [(1, ''number'')]"
  by (simp add: matchDirective_def startsWith_def lineTerminator_def getLine_def advance.simps)

text \<open>
  C7, as stated, on the two lines \<^verbatim>\<open>/* c */ // $ExpectType number\<close> and \<^verbatim>\<open>const x = 1;\<close>:
  only trivia precedes the directive on its line, and it is assigned to its own line 0,
  not to the next line. A block comment reaches the \<^verbatim>\<open>default\<close> branch of the loop and sets
  \<^verbatim>\<open>prevTokenPos\<close>.
\<close>

theorem getLine_block_comment_counts:
  "list_all isTrivia
      [\<lparr>kind = MultiLineCommentTrivia, tokenPos = 0, tokenText = ''/* c */''\<rparr>,
       \<lparr>kind = WhitespaceTrivia, tokenPos = 7, tokenText = '' ''\<rparr>]
   \<and> typeAssertions (scanLoop [0, 30]
      [\<lparr>kind = MultiLineCommentTrivia, tokenPos = 0, tokenText = ''/* c */''\<rparr>,
       \<lparr>kind = WhitespaceTrivia, tokenPos = 7, tokenText = '' ''\<rparr>,
       \<lparr>kind = SingleLineCommentTrivia, tokenPos = 8, tokenText = ''// $ExpectType number''\<rparr>,
       \<lparr>kind = NewLineTrivia, tokenPos = 29, tokenText = [CHR 0x0A]\<rparr>,
       \<lparr>kind = Token, tokenPos = 30, tokenText = ''const''\<rparr>,
       \<lparr>kind = WhitespaceTrivia, tokenPos = 35, tokenText = '' ''\<rparr>,
       \<lparr>kind = Token, tokenPos = 36, tokenText = ''x''\<rparr>,
       \<lparr>kind = WhitespaceTrivia, tokenPos = 37, tokenText = '' ''\<rparr>,
       \<lparr>kind = Token, tokenPos = 38, tokenText = ''=''\<rparr>,
       \<lparr>kind = WhitespaceTrivia, tokenPos = 39, tokenText = '' ''\<rparr>,
       \<lparr>kind = Token, tokenPos = 40, tokenText = ''1''\<rparr>,
       \<lparr>kind = Token, tokenPos = 41, tokenText = '';''\<rparr>,
       \<lparr>kind = EndOfFileToken, tokenPos = 42, tokenText = []\<rparr>]
      (- 1) 0 \<lparr>errorLines = [], typeAssertions = [], duplicates = []\<rparr>) = [(0, ''number'')]"
  by (simp add: isTrivia_def matchDirective_def startsWith_def lineTerminator_def getLine_def advance.simps)

text \<open>
  C7, amended. For a scanner output (line starts increasing from 0, token positions in
  order), a recognized directive comment is assigned its line as follows: if no token
  other than whitespace and single-line comments starts before it on its own line, it
  applies to the next line; otherwise it applies to its own line, the line where the
  preceding such token starts. Block comments and line breaks count as such tokens, as
  every non-trivia token does. In particular, \<^verbatim>\<open>// $ExpectType number\<close> on its own line
  directly above \<^verbatim>\<open>const x = 1;\<close> applies to the \<^verbatim>\<open>const x = 1;\<close> line.
\<close>

theorem getLine_applicable_line:
  "(sorted (lineStarts sf) \<and> lineStarts sf \<noteq> [] \<and> lineStarts sf ! 0 = 0
     \<and> sorted (map tokenPos (pre @ [t])) \<and> EndOfFileToken \<notin> kind ` set pre
     \<and> kind t = SingleLineCommentTrivia \<and> matchDirective (tokenText t) = Some d
    \<longrightarrow> (\<exists>rest. directiveLines (lineStarts sf) (pre @ t # post) (- 1) 0
          = directiveLines (lineStarts sf) pre (- 1) 0
            @ ((if \<exists>t'\<in>set pre. setsPrevTokenPos t'
                      \<and> lineOfPosition (tokenPos t') sf = lineOfPosition (tokenPos t) sf
                then lineOfPosition (tokenPos t) sf
                else lineOfPosition (tokenPos t) sf + 1), d) # rest))
   \<and> typeAssertions (scanLoop [0, 22]
      [\<lparr>kind = SingleLineCommentTrivia, tokenPos = 0, tokenText = ''// $ExpectType number''\<rparr>,
       \<lparr>kind = NewLineTrivia, tokenPos = 21, tokenText = [CHR 0x0A]\<rparr>,
       \<lparr>kind = Token, tokenPos = 22, tokenText = ''const''\<rparr>,
       \<lparr>kind = WhitespaceTrivia, tokenPos = 27, tokenText = '' ''\<rparr>,
       \<lparr>kind = Token, tokenPos = 28, tokenText = ''x''\<rparr>,
       \<lparr>kind = WhitespaceTrivia, tokenPos = 29, tokenText = '' ''\<rparr>,
       \<lparr>kind = Token, tokenPos = 30, tokenText = ''=''\<rparr>,
       \<lparr>kind = WhitespaceTrivia, tokenPos = 31, tokenText = '' ''\<rparr>,
       \<lparr>kind = Token, tokenPos = 32, tokenText = ''1''\<rparr>,
       \<lparr>kind = Token, tokenPos = 33, tokenText = '';''\<rparr>,
       \<lparr>kind = EndOfFileToken, tokenPos = 34, tokenText = []\<rparr>]
      (- 1) 0 \<lparr>errorLines = [], typeAssertions = [], duplicates = []\<rparr>) = [(1, ''number'')]"
proof (intro conjI impI)
  assume a: "sorted (lineStarts sf) \<and> lineStarts sf \<noteq> [] \<and> lineStarts sf ! 0 = 0
     \<and> sorted (map tokenPos (pre @ [t])) \<and> EndOfFileToken \<notin> kind ` set pre
     \<and> kind t = SingleLineCommentTrivia \<and> matchDirective (tokenText t) = Some d"
  let ?ls = "lineStarts sf"
  have "directiveLines ?ls (pre @ t # post) (- 1) 0
        = directiveLines ?ls pre (- 1) 0
          @ directiveLines ?ls (t # post) (fst (loopState ?ls pre (- 1) 0)) (snd (loopState ?ls pre (- 1) 0))"
    using a by (intro directiveLines_append) simp
  also have "directiveLines ?ls (t # post) (fst (loopState ?ls pre (- 1) 0)) (snd (loopState ?ls pre (- 1) 0))
        = (fst (getLine ?ls (fst (loopState ?ls pre (- 1) 0)) (snd (loopState ?ls pre (- 1) 0)) (tokenPos t)), d)
          # directiveLines ?ls post (fst (loopState ?ls pre (- 1) 0))
              (snd (getLine ?ls (fst (loopState ?ls pre (- 1) 0)) (snd (loopState ?ls pre (- 1) 0)) (tokenPos t)))"
    using a by (intro directiveLines_comment) simp_all
  finally show "\<exists>rest. directiveLines ?ls (pre @ t # post) (- 1) 0
          = directiveLines ?ls pre (- 1) 0
            @ ((if \<exists>t'\<in>set pre. setsPrevTokenPos t'
                      \<and> lineOfPosition (tokenPos t') sf = lineOfPosition (tokenPos t) sf
                then lineOfPosition (tokenPos t) sf
                else lineOfPosition (tokenPos t) sf + 1), d) # rest"
    using getLine_after_prefix [of sf pre t] a by (simp only:) blast
next
  show "typeAssertions (scanLoop [0, 22]
      [\<lparr>kind = SingleLineCommentTrivia, tokenPos = 0, tokenText = ''// $ExpectType number''\<rparr>,
       \<lparr>kind = NewLineTrivia, tokenPos = 21, tokenText = [CHR 0x0A]\<rparr>,
       \<lparr>kind = Token, tokenPos = 22, tokenText = ''const''\<rparr>,
       \<lparr>kind = WhitespaceTrivia, tokenPos = 27, tokenText = '' ''\<rparr>,
       \<lparr>kind = Token, tokenPos = 28, tokenText = ''x''\<rparr>,
       \<lparr>kind = WhitespaceTrivia, tokenPos = 29, tokenText = '' ''\<rparr>,
       \<lparr>kind = Token, tokenPos = 30, tokenText = ''=''\<rparr>,
       \<lparr>kind = WhitespaceTrivia, tokenPos = 31, tokenText = '' ''\<rparr>,
       \<lparr>kind = Token, tokenPos = 32, tokenText = ''1''\<rparr>,
       \<lparr>kind = Token, tokenPos = 33, tokenText = '';''\<rparr>,
       \<lparr>kind = EndOfFileToken, tokenPos = 34, tokenText = []\<rparr>]
      (- 1) 0 \<lparr>errorLines = [], typeAssertions = [], duplicates = []\<rparr>) = [(1, ''number'')]"
    by (rule scanLoop_example)
qed

text \<open>The theorem at a directive that is first on line 0 of two lines, and at a directive
  that trails a token on line 1.\<close>

theorem getLine_applicable_line_witness:
  "(\<exists>rest. directiveLines [0, 22]
      [\<lparr>kind = SingleLineCommentTrivia, tokenPos = 0, tokenText = ''// $ExpectType number''\<rparr>,
       \<lparr>kind = NewLineTrivia, tokenPos = 21, tokenText = [CHR 0x0A]\<rparr>,
       \<lparr>kind = Token, tokenPos = 22, tokenText = ''x''\<rparr>] (- 1) 0
     = (1, ExpectType ''number'') # rest)
   \<and> (\<exists>rest. directiveLines [0, 22]
      [\<lparr>kind = Token, tokenPos = 0, tokenText = ''x''\<rparr>,
       \<lparr>kind = NewLineTrivia, tokenPos = 1, tokenText = [CHR 0x0A]\<rparr>,
       \<lparr>kind = Token, tokenPos = 22, tokenText = ''y''\<rparr>,
       \<lparr>kind = WhitespaceTrivia, tokenPos = 23, tokenText = '' ''\<rparr>,
       \<lparr>kind = SingleLineCommentTrivia, tokenPos = 24, tokenText = ''// $ExpectError''\<rparr>] (- 1) 0
     = (1, ExpectError) # rest)"
proof -
  let ?sf = "\<lparr>sourceText = [], isDeclarationFile = False, lineStarts = [0, 22], statements = []\<rparr>"
  let ?c1 = "\<lparr>kind = SingleLineCommentTrivia, tokenPos = 0, tokenText = ''// $ExpectType number''\<rparr>"
  let ?post1 = "[\<lparr>kind = NewLineTrivia, tokenPos = 21, tokenText = [CHR 0x0A]\<rparr>,
       \<lparr>kind = Token, tokenPos = 22, tokenText = ''x''\<rparr>]"
  let ?pre2 = "[\<lparr>kind = Token, tokenPos = 0, tokenText = ''x''\<rparr>,
       \<lparr>kind = NewLineTrivia, tokenPos = 1, tokenText = [CHR 0x0A]\<rparr>,
       \<lparr>kind = Token, tokenPos = 22, tokenText = ''y''\<rparr>,
       \<lparr>kind = WhitespaceTrivia, tokenPos = 23, tokenText = '' ''\<rparr>]"
  let ?c2 = "\<lparr>kind = SingleLineCommentTrivia, tokenPos = 24, tokenText = ''// $ExpectError''\<rparr>"
  have m1: "matchDirective (tokenText ?c1) = Some (ExpectType ''number'')"
    and m2: "matchDirective (tokenText ?c2) = Some ExpectError"
    by (simp_all add: matchDirective_def startsWith_def lineTerminator_def)
  have l: "lineOfPosition 0 ?sf = 0" "lineOfPosition 1 ?sf = 0" "lineOfPosition 22 ?sf = 1"
    "lineOfPosition 24 ?sf = 1"
    by (simp_all add: lineOfPosition_def)
  have h1: "sorted (lineStarts ?sf) \<and> lineStarts ?sf \<noteq> [] \<and> lineStarts ?sf ! 0 = 0
     \<and> sorted (map tokenPos ([] @ [?c1])) \<and> EndOfFileToken \<notin> kind ` set []
     \<and> kind ?c1 = SingleLineCommentTrivia \<and> matchDirective (tokenText ?c1) = Some (ExpectType ''number'')"
    using m1 by simp
  have h2: "sorted (lineStarts ?sf) \<and> lineStarts ?sf \<noteq> [] \<and> lineStarts ?sf ! 0 = 0
     \<and> sorted (map tokenPos (?pre2 @ [?c2])) \<and> EndOfFileToken \<notin> kind ` set ?pre2
     \<and> kind ?c2 = SingleLineCommentTrivia \<and> matchDirective (tokenText ?c2) = Some ExpectError"
    using m2 by simp
  from getLine_applicable_line [of ?sf "[]" ?c1 "ExpectType ''number''" ?post1] h1
  have a: "\<exists>rest. directiveLines [0, 22] (?c1 # ?post1) (- 1) 0 = (1, ExpectType ''number'') # rest"
    by (simp add: l)
  from getLine_applicable_line [of ?sf ?pre2 ?c2 ExpectError "[]"] h2
  have b: "\<exists>rest. directiveLines [0, 22] (?pre2 @ [?c2]) (- 1) 0 = (1, ExpectError) # rest"
    by (simp add: l setsPrevTokenPos_def)
  show ?thesis
    using a b by simp
qed

subsection \<open>The table of assertions\<close>

lemma scanLoop_directiveLines:
  "scanLoop ls ts prev cur a
   = foldl (\<lambda>a h. record_directive (snd h) (fst h) a) a (directiveLines ls ts prev cur)"
proof (induction ts arbitrary: prev cur a)
  case Nil
  show ?case by simp
next
  case (Cons t ts)
  show ?case
    by (cases "kind t") (simp_all add: Cons.IH split: option.split prod.split)
qed

lemma parseAssertions_directivesOf:
  "parseAssertions source ts
   = foldl (\<lambda>a h. record_directive (snd h) (fst h) a)
       \<lparr>errorLines = [], typeAssertions = [], duplicates = []\<rparr> (directivesOf source ts)"
  by (simp add: parseAssertions_def directivesOf_def scanLoop_directiveLines)

text \<open>One directive on line \<open>l\<close>, seen from line \<open>L\<close>.\<close>

lemma record_directive_other:
  assumes "l \<noteq> L"
  shows "L \<in> set (errorLines (record_directive d l a)) \<longleftrightarrow> L \<in> set (errorLines a)"
    and "map_of (typeAssertions (record_directive d l a)) L = map_of (typeAssertions a) L"
    and "count_list (duplicates (record_directive d l a)) L = count_list (duplicates a) L"
  using assms by (cases d; auto simp: Set_add_def update_conv' delete_conv')+

lemma record_directive_error:
  "L \<in> set (errorLines (record_directive ExpectError L a))"
  "map_of (typeAssertions (record_directive ExpectError L a)) L = map_of (typeAssertions a) L"
  "count_list (duplicates (record_directive ExpectError L a)) L
     = count_list (duplicates a) L + (if L \<in> set (errorLines a) then 1 else 0)"
  by (auto simp: Set_add_def)

lemma record_directive_type:
  "L \<in> set (errorLines (record_directive (ExpectType e) L a)) \<longleftrightarrow> L \<in> set (errorLines a)"
  "map_of (typeAssertions (record_directive (ExpectType e) L a)) L \<noteq> None
     \<longleftrightarrow> map_of (typeAssertions a) L = None"
  "count_list (duplicates (record_directive (ExpectType e) L a)) L
     = count_list (duplicates a) L + (if map_of (typeAssertions a) L \<noteq> None then 1 else 0)"
  by (auto simp: update_conv' delete_conv')

lemma record_directive_distinct:
  "distinct (errorLines a) \<Longrightarrow> distinct (errorLines (record_directive d l a))"
  "distinct (map fst (typeAssertions a)) \<Longrightarrow> distinct (map fst (typeAssertions (record_directive d l a)))"
  by (cases d; auto simp: Set_add_def distinct_update distinct_delete)+

lemma fold_record_directive:
  fixes hs :: "(nat \<times> directive) list"
  defines "run \<equiv> foldl (\<lambda>a h. record_directive (snd h) (fst h) a)"
  shows "(L \<in> set (errorLines (run a hs)) \<longleftrightarrow> L \<in> set (errorLines a) \<or> 0 < expectErrorCount hs L)
    \<and> (map_of (typeAssertions (run a hs)) L \<noteq> None
         \<longleftrightarrow> (map_of (typeAssertions a) L \<noteq> None) \<noteq> odd (expectTypeCount hs L))
    \<and> count_list (duplicates (run a hs)) L
        = count_list (duplicates a) L
          + (if L \<in> set (errorLines a) then expectErrorCount hs L else expectErrorCount hs L - 1)
          + (expectTypeCount hs L + (if map_of (typeAssertions a) L \<noteq> None then 1 else 0)) div 2"
proof (induction hs arbitrary: a)
  case Nil
  show ?case by (simp add: run_def expectErrorCount_def expectTypeCount_def)
next
  case (Cons h hs)
  obtain l d where h: "h = (l, d)" by (cases h)
  let ?a = "record_directive d l a"
  have run: "run a (h # hs) = run ?a hs"
    by (simp add: run_def h)
  note ih = Cons.IH [of ?a]
  show ?case
  proof (cases "l = L")
    case False
    then have c: "expectErrorCount (h # hs) L = expectErrorCount hs L"
      "expectTypeCount (h # hs) L = expectTypeCount hs L"
      by (simp_all add: expectErrorCount_def expectTypeCount_def h)
    show ?thesis
      unfolding run c using ih by (simp add: record_directive_other [OF False])
  next
    case True
    show ?thesis
    proof (cases d)
      case ExpectError
      then have c: "expectErrorCount (h # hs) L = Suc (expectErrorCount hs L)"
        "expectTypeCount (h # hs) L = expectTypeCount hs L"
        by (simp_all add: expectErrorCount_def expectTypeCount_def h True)
      show ?thesis
        unfolding run c using ih
        by (simp add: ExpectError True record_directive_error del: record_directive.simps)
    next
      case (ExpectType e)
      then have c: "expectErrorCount (h # hs) L = expectErrorCount hs L"
        "expectTypeCount (h # hs) L = Suc (expectTypeCount hs L)"
        by (simp_all add: expectErrorCount_def expectTypeCount_def h True)
      show ?thesis
      proof (cases "map_of (typeAssertions a) L = None")
        case None: True
        then have "map_of (typeAssertions (record_directive (ExpectType e) L a)) L \<noteq> None"
          by (simp only: record_directive_type(2))
        with None show ?thesis
          unfolding run c using ih
          by (simp add: ExpectType True record_directive_type(1,3) del: record_directive.simps)
      next
        case Some: False
        then have "\<not> map_of (typeAssertions (record_directive (ExpectType e) L a)) L \<noteq> None"
          by (simp only: record_directive_type(2)) simp
        with Some show ?thesis
          unfolding run c using ih
          by (simp add: ExpectType True record_directive_type(1,3) del: record_directive.simps)
      qed
    qed
  qed
qed

lemma fold_record_directive_distinct:
  "distinct (errorLines a) \<and> distinct (map fst (typeAssertions a)) \<Longrightarrow>
   distinct (errorLines (foldl (\<lambda>a h. record_directive (snd h) (fst h) a) a hs))
   \<and> distinct (map fst (typeAssertions (foldl (\<lambda>a h. record_directive (snd h) (fst h) a) a hs)))"
  by (induction hs arbitrary: a) (simp_all add: record_directive_distinct del: record_directive.simps)

lemma parseAssertions_counts:
  "(L \<in> set (errorLines (parseAssertions source ts)) \<longleftrightarrow> 0 < expectErrorCount (directivesOf source ts) L)"
  "(map_of (typeAssertions (parseAssertions source ts)) L \<noteq> None
      \<longleftrightarrow> odd (expectTypeCount (directivesOf source ts) L))"
  "count_list (duplicates (parseAssertions source ts)) L
      = (expectErrorCount (directivesOf source ts) L - 1) + expectTypeCount (directivesOf source ts) L div 2"
  "distinct (errorLines (parseAssertions source ts))"
  "distinct (map fst (typeAssertions (parseAssertions source ts)))"
  using fold_record_directive [of L "\<lparr>errorLines = [], typeAssertions = [], duplicates = []\<rparr>"
      "directivesOf source ts"]
    fold_record_directive_distinct [of "\<lparr>errorLines = [], typeAssertions = [], duplicates = []\<rparr>"
      "directivesOf source ts"]
  by (simp_all add: parseAssertions_directivesOf)

text \<open>
  C6, as stated, on the two lines \<^verbatim>\<open>// $ExpectError\<close> and \<^verbatim>\<open>foo(); // $ExpectError\<close>: both
  directives apply to line 1, and after the scan line 1 is in the error-line set and in
  the list of duplicates. The second \<^verbatim>\<open>$ExpectError\<close> does not void the first.
\<close>

theorem parseAssertions_error_line_and_duplicate:
  "1 \<in> set (errorLines (parseAssertions
       \<lparr>sourceText = ''// $ExpectError'' @ [CHR 0x0A] @ ''foo(); // $ExpectError'',
        isDeclarationFile = False, lineStarts = [0, 16], statements = []\<rparr>
       \<lparr>scan = (\<lambda>s.
          [\<lparr>kind = SingleLineCommentTrivia, tokenPos = 0, tokenText = ''// $ExpectError''\<rparr>,
           \<lparr>kind = NewLineTrivia, tokenPos = 15, tokenText = [CHR 0x0A]\<rparr>,
           \<lparr>kind = Token, tokenPos = 16, tokenText = ''foo''\<rparr>,
           \<lparr>kind = Token, tokenPos = 19, tokenText = ''(''\<rparr>,
           \<lparr>kind = Token, tokenPos = 20, tokenText = '')''\<rparr>,
           \<lparr>kind = Token, tokenPos = 21, tokenText = '';''\<rparr>,
           \<lparr>kind = WhitespaceTrivia, tokenPos = 22, tokenText = '' ''\<rparr>,
           \<lparr>kind = SingleLineCommentTrivia, tokenPos = 23, tokenText = ''// $ExpectError''\<rparr>,
           \<lparr>kind = EndOfFileToken, tokenPos = 38, tokenText = []\<rparr>]),
        getPreEmitDiagnostics = (\<lambda>p. []),
        flattenDiagnosticMessageText = (\<lambda>m s. toString m),
        buildProgram = (\<lambda>c. None)\<rparr>))
   \<and> 1 \<in> set (duplicates (parseAssertions
       \<lparr>sourceText = ''// $ExpectError'' @ [CHR 0x0A] @ ''foo(); // $ExpectError'',
        isDeclarationFile = False, lineStarts = [0, 16], statements = []\<rparr>
       \<lparr>scan = (\<lambda>s.
          [\<lparr>kind = SingleLineCommentTrivia, tokenPos = 0, tokenText = ''// $ExpectError''\<rparr>,
           \<lparr>kind = NewLineTrivia, tokenPos = 15, tokenText = [CHR 0x0A]\<rparr>,
           \<lparr>kind = Token, tokenPos = 16, tokenText = ''foo''\<rparr>,
           \<lparr>kind = Token, tokenPos = 19, tokenText = ''(''\<rparr>,
           \<lparr>kind = Token, tokenPos = 20, tokenText = '')''\<rparr>,
           \<lparr>kind = Token, tokenPos = 21, tokenText = '';''\<rparr>,
           \<lparr>kind = WhitespaceTrivia, tokenPos = 22, tokenText = '' ''\<rparr>,
           \<lparr>kind = SingleLineCommentTrivia, tokenPos = 23, tokenText = ''// $ExpectError''\<rparr>,
           \<lparr>kind = EndOfFileToken, tokenPos = 38, tokenText = []\<rparr>]),
        getPreEmitDiagnostics = (\<lambda>p. []),
        flattenDiagnosticMessageText = (\<lambda>m s. toString m),
        buildProgram = (\<lambda>c. None)\<rparr>))"
  by (simp add: parseAssertions_def matchDirective_def startsWith_def getLine_def advance.simps
      Set_add_def)

text \<open>
  C6, amended. After the Assertion Scanner finishes, for every line: it is in the
  error-line set exactly when at least one \<^verbatim>\<open>$ExpectError\<close> applies to it; it has a pending
  type assertion exactly when an odd number of \<^verbatim>\<open>$ExpectType\<close> directives apply to it; it
  occurs in the list of duplicates once for every \<^verbatim>\<open>$ExpectError\<close> after the first and once
  for every second \<^verbatim>\<open>$ExpectType\<close>. So the two kinds are independent per line; with at
  most two \<^verbatim>\<open>$ExpectType\<close> directives and at most one \<^verbatim>\<open>$ExpectError\<close> a line is never both
  pending and a duplicate, and a second \<^verbatim>\<open>$ExpectType\<close> voids the pending expectation; a
  second \<^verbatim>\<open>$ExpectError\<close> records a duplicate and the line stays in the error-line set.
\<close>

theorem parseAssertions_table:
  "(L \<in> set (errorLines (parseAssertions source ts))
      \<longleftrightarrow> 0 < expectErrorCount (directivesOf source ts) L)
   \<and> (map_of (typeAssertions (parseAssertions source ts)) L \<noteq> None
      \<longleftrightarrow> odd (expectTypeCount (directivesOf source ts) L))
   \<and> count_list (duplicates (parseAssertions source ts)) L
      = (expectErrorCount (directivesOf source ts) L - 1)
        + expectTypeCount (directivesOf source ts) L div 2
   \<and> distinct (errorLines (parseAssertions source ts))
   \<and> distinct (map fst (typeAssertions (parseAssertions source ts)))
   \<and> (expectTypeCount (directivesOf source ts) L \<le> 2
        \<and> expectErrorCount (directivesOf source ts) L \<le> 1
      \<longrightarrow> \<not> (map_of (typeAssertions (parseAssertions source ts)) L \<noteq> None
             \<and> L \<in> set (duplicates (parseAssertions source ts))))
   \<and> (2 \<le> expectErrorCount (directivesOf source ts) L
      \<longrightarrow> L \<in> set (errorLines (parseAssertions source ts))
          \<and> L \<in> set (duplicates (parseAssertions source ts)))"
proof -
  let ?A = "parseAssertions source ts"
  let ?e = "expectErrorCount (directivesOf source ts) L"
  let ?t = "expectTypeCount (directivesOf source ts) L"
  note c = parseAssertions_counts(1-3) [where L = L and source = source and ts = ts]
    parseAssertions_counts(4,5) [where source = source and ts = ts]
  have mem: "L \<in> set (duplicates ?A) \<longleftrightarrow> 0 < (?e - 1) + ?t div 2"
    using c(3) count_list_0_iff [of "duplicates ?A" L] by auto
  have a: "?t \<le> 2 \<and> ?e \<le> 1 \<longrightarrow> \<not> (odd ?t \<and> 0 < (?e - 1) + ?t div 2)"
  proof (intro impI)
    assume h: "?t \<le> 2 \<and> ?e \<le> 1"
    then have "?t = 0 \<or> ?t = 1 \<or> ?t = 2" by auto
    then show "\<not> (odd ?t \<and> 0 < (?e - 1) + ?t div 2)"
      using h by auto
  qed
  have b: "2 \<le> ?e \<longrightarrow> 0 < ?e \<and> 0 < (?e - 1) + ?t div 2"
    by auto
  have a': "?t \<le> 2 \<and> ?e \<le> 1
      \<longrightarrow> \<not> (map_of (typeAssertions ?A) L \<noteq> None \<and> L \<in> set (duplicates ?A))"
    using a unfolding c(2) mem .
  have b': "2 \<le> ?e \<longrightarrow> L \<in> set (errorLines ?A) \<and> L \<in> set (duplicates ?A)"
    using b unfolding c(1) mem .
  show ?thesis
    using c a' b' by (intro conjI)
qed

text \<open>The theorem at line 1 of \<^verbatim>\<open>// $ExpectType number\<close>, \<^verbatim>\<open>x; // $ExpectType string\<close>: no
  pending assertion, one duplicate.\<close>

theorem parseAssertions_table_witness:
  "1 \<notin> set (errorLines (parseAssertions
       \<lparr>sourceText = ''// $ExpectType number'' @ [CHR 0x0A] @ ''x; // $ExpectType string'',
        isDeclarationFile = False, lineStarts = [0, 22], statements = []\<rparr>
       \<lparr>scan = (\<lambda>s.
          [\<lparr>kind = SingleLineCommentTrivia, tokenPos = 0, tokenText = ''// $ExpectType number''\<rparr>,
           \<lparr>kind = NewLineTrivia, tokenPos = 21, tokenText = [CHR 0x0A]\<rparr>,
           \<lparr>kind = Token, tokenPos = 22, tokenText = ''x''\<rparr>,
           \<lparr>kind = Token, tokenPos = 23, tokenText = '';''\<rparr>,
           \<lparr>kind = WhitespaceTrivia, tokenPos = 24, tokenText = '' ''\<rparr>,
           \<lparr>kind = SingleLineCommentTrivia, tokenPos = 25, tokenText = ''// $ExpectType string''\<rparr>,
           \<lparr>kind = EndOfFileToken, tokenPos = 46, tokenText = []\<rparr>]),
        getPreEmitDiagnostics = (\<lambda>p. []),
        flattenDiagnosticMessageText = (\<lambda>m s. toString m),
        buildProgram = (\<lambda>c. None)\<rparr>))
   \<and> map_of (typeAssertions (parseAssertions
       \<lparr>sourceText = ''// $ExpectType number'' @ [CHR 0x0A] @ ''x; // $ExpectType string'',
        isDeclarationFile = False, lineStarts = [0, 22], statements = []\<rparr>
       \<lparr>scan = (\<lambda>s.
          [\<lparr>kind = SingleLineCommentTrivia, tokenPos = 0, tokenText = ''// $ExpectType number''\<rparr>,
           \<lparr>kind = NewLineTrivia, tokenPos = 21, tokenText = [CHR 0x0A]\<rparr>,
           \<lparr>kind = Token, tokenPos = 22, tokenText = ''x''\<rparr>,
           \<lparr>kind = Token, tokenPos = 23, tokenText = '';''\<rparr>,
           \<lparr>kind = WhitespaceTrivia, tokenPos = 24, tokenText = '' ''\<rparr>,
           \<lparr>kind = SingleLineCommentTrivia, tokenPos = 25, tokenText = ''// $ExpectType string''\<rparr>,
           \<lparr>kind = EndOfFileToken, tokenPos = 46, tokenText = []\<rparr>]),
        getPreEmitDiagnostics = (\<lambda>p. []),
        flattenDiagnosticMessageText = (\<lambda>m s. toString m),
        buildProgram = (\<lambda>c. None)\<rparr>)) 1 = None
   \<and> count_list (duplicates (parseAssertions
       \<lparr>sourceText = ''// $ExpectType number'' @ [CHR 0x0A] @ ''x; // $ExpectType string'',
        isDeclarationFile = False, lineStarts = [0, 22], statements = []\<rparr>
       \<lparr>scan = (\<lambda>s.
          [\<lparr>kind = SingleLineCommentTrivia, tokenPos = 0, tokenText = ''// $ExpectType number''\<rparr>,
           \<lparr>kind = NewLineTrivia, tokenPos = 21, tokenText = [CHR 0x0A]\<rparr>,
           \<lparr>kind = Token, tokenPos = 22, tokenText = ''x''\<rparr>,
           \<lparr>kind = Token, tokenPos = 23, tokenText = '';''\<rparr>,
           \<lparr>kind = WhitespaceTrivia, tokenPos = 24, tokenText = '' ''\<rparr>,
           \<lparr>kind = SingleLineCommentTrivia, tokenPos = 25, tokenText = ''// $ExpectType string''\<rparr>,
           \<lparr>kind = EndOfFileToken, tokenPos = 46, tokenText = []\<rparr>]),
        getPreEmitDiagnostics = (\<lambda>p. []),
        flattenDiagnosticMessageText = (\<lambda>m s. toString m),
        buildProgram = (\<lambda>c. None)\<rparr>)) 1 = 1"
proof -
  let ?sf = "\<lparr>sourceText = ''// $ExpectType number'' @ [CHR 0x0A] @ ''x; // $ExpectType string'',
        isDeclarationFile = False, lineStarts = [0, 22], statements = []\<rparr>"
  let ?ts = "\<lparr>scan = (\<lambda>s.
          [\<lparr>kind = SingleLineCommentTrivia, tokenPos = 0, tokenText = ''// $ExpectType number''\<rparr>,
           \<lparr>kind = NewLineTrivia, tokenPos = 21, tokenText = [CHR 0x0A]\<rparr>,
           \<lparr>kind = Token, tokenPos = 22, tokenText = ''x''\<rparr>,
           \<lparr>kind = Token, tokenPos = 23, tokenText = '';''\<rparr>,
           \<lparr>kind = WhitespaceTrivia, tokenPos = 24, tokenText = '' ''\<rparr>,
           \<lparr>kind = SingleLineCommentTrivia, tokenPos = 25, tokenText = ''// $ExpectType string''\<rparr>,
           \<lparr>kind = EndOfFileToken, tokenPos = 46, tokenText = []\<rparr>]),
        getPreEmitDiagnostics = (\<lambda>p. []),
        flattenDiagnosticMessageText = (\<lambda>m s. toString m),
        buildProgram = (\<lambda>c. None)\<rparr>"
  have d: "directivesOf ?sf ?ts = [(1, ExpectType ''number''), (1, ExpectType ''string'')]"
    by (simp add: directivesOf_def matchDirective_def startsWith_def lineTerminator_def
        getLine_def advance.simps)
  have c: "expectErrorCount (directivesOf ?sf ?ts) 1 = 0" "expectTypeCount (directivesOf ?sf ?ts) 1 = 2"
    unfolding d by (simp_all add: expectErrorCount_def expectTypeCount_def)
  show ?thesis
    using parseAssertions_table [of 1 ?sf ?ts] unfolding c by simp
qed

section \<open>Properties of the walk over one file\<close>

subsection \<open>Files without assertions\<close>





subsection \<open>Files with assertions: the failures of one line\<close>
















section \<open>Properties of the Version Search Coordinator\<close>

subsection \<open>What a walk can throw, and what the next-higher version changes\<close>

lemma addFailureAtLine_error:
  "addFailureAtLine sf l msg = Inl e \<Longrightarrow> e = TypeError \<or> e = DebugFailure"
  by (auto simp: addFailureAtLine_def Let_def split: if_splits)

lemma mapM_error:
  "mapM (\<lambda>l. addFailureAtLine sf l msg) ls = Inl e \<Longrightarrow> e = TypeError \<or> e = DebugFailure"
proof (induction ls)
  case Nil
  then show ?case by simp
next
  case (Cons l ls)
  then show ?case
    using addFailureAtLine_error [of sf l msg] by (auto split: sum.splits)
qed

lemma walk_error:
  "walk ts prog v nh = Inl e \<Longrightarrow> e = TypeError \<or> e = DebugFailure"
  unfolding walk_def Let_def
  by (auto split: option.splits if_splits sum.splits dest: mapM_error)

text \<open>The next-higher version enters the texts of the diagnostics' failures only: it changes
  neither whether the walk completes nor how many failures it adds.\<close>

lemma walk_nextHigherVersion:
  "walk ts prog v nh = Inr fs \<Longrightarrow> \<exists>fs'. walk ts prog v nh' = Inr fs' \<and> length fs' = length fs"
  unfolding walk_def Let_def
  by (auto split: option.splits if_splits sum.splits)


subsection \<open>The cache and the backward scan\<close>

lemma getFailures_Inr:
  assumes "getFailures env opts v p nh cache = Inr (fs, cache')"
  shows "\<exists>ts prog. require env p = Some ts \<and> cache' v = Some prog \<and> walk ts prog v nh = Inr fs
           \<and> cache \<subseteq>\<^sub>m cache'"
  using assms
  by (auto simp: getFailures_def getProgram_def createProgram_def map_le_def
      split: option.splits sum.splits)

lemma getFailures_cached:
  "require env p = Some ts \<Longrightarrow> cache v = Some prog \<Longrightarrow>
   getFailures env opts v p nh cache
   = (case walk ts prog v nh of Inl e \<Rightarrow> Inl e | Inr fs \<Rightarrow> Inr (fs, cache))"
  by (simp add: getFailures_def getProgram_def)

lemma getFailures_error:
  "getFailures env opts v p nh cache = Inl e \<Longrightarrow>
   e = CollaboratorError \<or> e = TypeError \<or> e = DebugFailure"
  by (auto simp: getFailures_def getProgram_def createProgram_def
      split: option.splits sum.splits dest: walk_error)

text \<open>Once the oldest version has reported failures, the backward scan cannot run through:
  its program stays in the cache, and the scan's last round walks it again.\<close>

lemma scanBackward_finds:
  assumes min: "require env (path (olderInstalls opts ! 0)) = Some ts"
      "walk ts prog (versionName (olderInstalls opts ! 0)) None = Inr fs0" "fs0 \<noteq> []"
  shows "0 < k \<Longrightarrow> cache (versionName (olderInstalls opts ! 0)) = Some prog \<Longrightarrow>
     (\<exists>fs c. scanBackward env opts k cache = Inr (fs, c) \<and> fs \<noteq> [])
     \<or> (\<exists>e. scanBackward env opts k cache = Inl e
            \<and> (e = CollaboratorError \<or> e = TypeError \<or> e = DebugFailure))"
proof (induction k arbitrary: cache)
  case 0
  then show ?case by simp
next
  case (Suc i)
  let ?inst = "olderInstalls opts ! i"
  let ?g = "getFailures env opts (versionName ?inst) (path ?inst) (Some (nextHigherVersionAt opts i)) cache"
  show ?case
  proof (cases ?g)
    case (Inl e)
    then show ?thesis
      using getFailures_error [OF Inl] by (simp add: Let_def)
  next
    case (Inr r)
    obtain fs c where r: "r = (fs, c)" by (cases r)
    show ?thesis
    proof (cases "fs = []")
      case False
      then show ?thesis using Inr r by (simp add: Let_def)
    next
      case True
      have i: "i \<noteq> 0"
      proof
        assume z: "i = 0"
        from getFailures_cached [where cache = cache and v = "versionName (olderInstalls opts ! 0)"
            and prog = prog and opts = opts and nh = "Some (nextHigherVersionAt opts 0)",
            OF min(1) Suc.prems(2)]
          Inr r True z
        have "walk ts prog (versionName (olderInstalls opts ! 0)) (Some (nextHigherVersionAt opts 0)) = Inr []"
          by (auto split: sum.splits)
        from walk_nextHigherVersion [OF this, of None] min(2,3) show False by simp
      qed
      from getFailures_Inr [OF Inr [unfolded r]] have "cache \<subseteq>\<^sub>m c" by blast
      with Suc.prems(2) have "c (versionName (olderInstalls opts ! 0)) = Some prog"
        by (rule map_le_SomeD [rotated])
      with Suc.IH [of c] i have "(\<exists>fs c'. scanBackward env opts i c = Inr (fs, c') \<and> fs \<noteq> [])
         \<or> (\<exists>e. scanBackward env opts i c = Inl e
            \<and> (e = CollaboratorError \<or> e = TypeError \<or> e = DebugFailure))"
        by simp
      then show ?thesis
        using Inr r True by (simp add: Let_def)
    qed
  qed
qed

lemma applyWithProgram_scan:
  assumes "getFailures env opts ''next'' (tsNextPath opts) None cache = Inr ([], c1)"
    and "olderInstalls opts \<noteq> []"
    and "getFailures env opts (versionName (olderInstalls opts ! 0)) (path (olderInstalls opts ! 0))
           None c1 = Inr (fs0, c2)"
    and "fs0 \<noteq> []"
  shows "applyWithProgram env (Some opts) lintProgram cache
         = scanBackward env opts (length (olderInstalls opts)) c2"
  using assms by (simp add: applyWithProgram_def Let_def)

lemma scan_after_min:
  assumes "getFailures env opts (versionName (olderInstalls opts ! 0)) (path (olderInstalls opts ! 0))
           None c1 = Inr (fs0, c2)"
    and "fs0 \<noteq> []" "olderInstalls opts \<noteq> []"
  shows "(\<exists>fs c. scanBackward env opts (length (olderInstalls opts)) c2 = Inr (fs, c) \<and> fs \<noteq> [])
     \<or> (\<exists>e. scanBackward env opts (length (olderInstalls opts)) c2 = Inl e
            \<and> (e = CollaboratorError \<or> e = TypeError \<or> e = DebugFailure))"
proof -
  from getFailures_Inr [OF assms(1)] obtain ts prog where
    m: "require env (path (olderInstalls opts ! 0)) = Some ts"
    "c2 (versionName (olderInstalls opts ! 0)) = Some prog"
    "walk ts prog (versionName (olderInstalls opts ! 0)) None = Inr fs0"
    by blast
  have "0 < length (olderInstalls opts)" using assms(3) by simp
  from scanBackward_finds [where cache = c2 and k = "length (olderInstalls opts)",
      OF m(1,3) assms(2) this m(2)]
  show ?thesis .
qed



lemma getFailures_fresh:
  "require env p = Some ts \<Longrightarrow> cache v = None \<Longrightarrow> buildProgram ts (tsconfigPath opts) = Some prog \<Longrightarrow>
   walk ts prog v nh = Inr fs \<Longrightarrow>
   getFailures env opts v p nh cache = Inr (fs, cache(v \<mapsto> prog))"
  by (simp add: getFailures_def getProgram_def createProgram_def)















subsection \<open>The bare throw\<close>

text \<open>
  C9. A run of the model is a function of its inputs, which is the claim's precondition.
  The bare \<^verbatim>\<open>throw\<close> after the backward scan is never reached: no application of the rule
  ends with it. Whenever the scan is entered, the oldest configured version has reported
  failures, its program is in the cache and the last round of the scan walks it again; so
  the scan returns a non-empty failure list, unless a round before ends with an exception
  of its own (a collaborator's, or one of the walk).
\<close>

theorem applyWithProgram_never_reaches_throw:
  "applyWithProgram env ruleArgument lintProgram cache \<noteq> Inl UnreachableError
   \<and> (ruleArgument = Some opts
       \<and> getFailures env opts ''next'' (tsNextPath opts) None cache = Inr ([], c1)
       \<and> olderInstalls opts \<noteq> []
       \<and> getFailures env opts (versionName (olderInstalls opts ! 0)) (path (olderInstalls opts ! 0))
            None c1 = Inr (fs0, c2)
       \<and> fs0 \<noteq> []
      \<longrightarrow> applyWithProgram env ruleArgument lintProgram cache
            = scanBackward env opts (length (olderInstalls opts)) c2
          \<and> ((\<exists>fs c. scanBackward env opts (length (olderInstalls opts)) c2 = Inr (fs, c) \<and> fs \<noteq> [])
              \<or> (\<exists>e. scanBackward env opts (length (olderInstalls opts)) c2 = Inl e
                    \<and> (e = CollaboratorError \<or> e = TypeError \<or> e = DebugFailure))))"
proof (rule conjI)
  show "applyWithProgram env ruleArgument lintProgram cache \<noteq> Inl UnreachableError"
  proof (cases ruleArgument)
    case None
    then show ?thesis
      using walk_error [of "TsType env" lintProgram "''next''" None]
      by (auto simp: applyWithProgram_def split: sum.splits)
  next
    case (Some o')
    let ?next = "getFailures env o' ''next'' (tsNextPath o') None cache"
    show ?thesis
    proof (cases ?next)
      case (Inl e)
      with getFailures_error [OF Inl] Some show ?thesis
        by (auto simp: applyWithProgram_def)
    next
      case (Inr r)
      obtain nextFailures c1 where r: "r = (nextFailures, c1)" by (cases r)
      let ?min = "getFailures env o' (versionName (olderInstalls o' ! 0)) (path (olderInstalls o' ! 0)) None c1"
      show ?thesis
      proof (cases "nextFailures \<noteq> [] \<or> olderInstalls o' = []")
        case True
        with Some Inr r show ?thesis
          by (auto simp: applyWithProgram_def)
      next
        case False
        then have nf: "nextFailures = []" and oi: "olderInstalls o' \<noteq> []" by simp_all
        show ?thesis
        proof (cases ?min)
          case (Inl e)
          with getFailures_error [OF Inl] Some Inr r nf oi show ?thesis
            by (auto simp: applyWithProgram_def Let_def)
        next
          case min: (Inr r')
          obtain minFailures c2 where r': "r' = (minFailures, c2)" by (cases r')
          show ?thesis
          proof (cases "minFailures = []")
            case True
            with Some Inr r nf oi min r' show ?thesis
              by (simp add: applyWithProgram_def Let_def)
          next
            case False
            from applyWithProgram_scan [OF Inr [unfolded r nf] oi min [unfolded r'] False, of lintProgram]
              scan_after_min [OF min [unfolded r'] False oi] Some
            show ?thesis by auto
          qed
        qed
      qed
    qed
  qed
next
  show "ruleArgument = Some opts
       \<and> getFailures env opts ''next'' (tsNextPath opts) None cache = Inr ([], c1)
       \<and> olderInstalls opts \<noteq> []
       \<and> getFailures env opts (versionName (olderInstalls opts ! 0)) (path (olderInstalls opts ! 0))
            None c1 = Inr (fs0, c2)
       \<and> fs0 \<noteq> []
      \<longrightarrow> applyWithProgram env ruleArgument lintProgram cache
            = scanBackward env opts (length (olderInstalls opts)) c2
          \<and> ((\<exists>fs c. scanBackward env opts (length (olderInstalls opts)) c2 = Inr (fs, c) \<and> fs \<noteq> [])
              \<or> (\<exists>e. scanBackward env opts (length (olderInstalls opts)) c2 = Inl e
                    \<and> (e = CollaboratorError \<or> e = TypeError \<or> e = DebugFailure)))"
    using applyWithProgram_scan [of env opts cache c1 fs0 c2 lintProgram]
      scan_after_min [of env opts c1 fs0 c2]
    by blast
qed

text \<open>The theorem with the versions 2.0 and 2.1, where \<^verbatim>\<open>next\<close> and 2.1 pass and 2.0 reports a
  diagnostic.\<close>

theorem applyWithProgram_never_reaches_throw_witness:
  "applyWithProgram
      \<lparr>require = (\<lambda>p. if p = ''/ts/2.0''
          then Some \<lparr>scan = (\<lambda>s. []),
                 getPreEmitDiagnostics = (\<lambda>p. [\<lparr>diagnosticFile = SameFile, start = 0, width = 3,
                     messageText = MessageString ''Bad.''\<rparr>]),
                 flattenDiagnosticMessageText = (\<lambda>m s. toString m),
                 buildProgram = (\<lambda>c. Some \<lparr>getSourceFile = Some \<lparr>sourceText = ''let y;'',
                     isDeclarationFile = False, lineStarts = [0], statements = []\<rparr>\<rparr>)\<rparr>
          else Some \<lparr>scan = (\<lambda>s. []), getPreEmitDiagnostics = (\<lambda>p. []),
                 flattenDiagnosticMessageText = (\<lambda>m s. toString m),
                 buildProgram = (\<lambda>c. Some \<lparr>getSourceFile = Some \<lparr>sourceText = ''let y;'',
                     isDeclarationFile = False, lineStarts = [0], statements = []\<rparr>\<rparr>)\<rparr>),
       TsType = \<lparr>scan = (\<lambda>s. []), getPreEmitDiagnostics = (\<lambda>p. []),
                 flattenDiagnosticMessageText = (\<lambda>m s. toString m),
                 buildProgram = (\<lambda>c. None)\<rparr>\<rparr>
      (Some \<lparr>tsconfigPath = ''tsconfig.json'', tsNextPath = ''/ts/next'',
       olderInstalls = [\<lparr>versionName = ''2.0'', path = ''/ts/2.0''\<rparr>,
                        \<lparr>versionName = ''2.1'', path = ''/ts/2.1''\<rparr>]\<rparr>)
      \<lparr>getSourceFile = Some \<lparr>sourceText = ''let y;'',
           isDeclarationFile = False, lineStarts = [0], statements = []\<rparr>\<rparr>
      Map.empty \<noteq> Inl UnreachableError
   \<and> (\<exists>r. applyWithProgram
      \<lparr>require = (\<lambda>p. if p = ''/ts/2.0''
          then Some \<lparr>scan = (\<lambda>s. []),
                 getPreEmitDiagnostics = (\<lambda>p. [\<lparr>diagnosticFile = SameFile, start = 0, width = 3,
                     messageText = MessageString ''Bad.''\<rparr>]),
                 flattenDiagnosticMessageText = (\<lambda>m s. toString m),
                 buildProgram = (\<lambda>c. Some \<lparr>getSourceFile = Some \<lparr>sourceText = ''let y;'',
                     isDeclarationFile = False, lineStarts = [0], statements = []\<rparr>\<rparr>)\<rparr>
          else Some \<lparr>scan = (\<lambda>s. []), getPreEmitDiagnostics = (\<lambda>p. []),
                 flattenDiagnosticMessageText = (\<lambda>m s. toString m),
                 buildProgram = (\<lambda>c. Some \<lparr>getSourceFile = Some \<lparr>sourceText = ''let y;'',
                     isDeclarationFile = False, lineStarts = [0], statements = []\<rparr>\<rparr>)\<rparr>),
       TsType = \<lparr>scan = (\<lambda>s. []), getPreEmitDiagnostics = (\<lambda>p. []),
                 flattenDiagnosticMessageText = (\<lambda>m s. toString m),
                 buildProgram = (\<lambda>c. None)\<rparr>\<rparr>
      (Some \<lparr>tsconfigPath = ''tsconfig.json'', tsNextPath = ''/ts/next'',
       olderInstalls = [\<lparr>versionName = ''2.0'', path = ''/ts/2.0''\<rparr>,
                        \<lparr>versionName = ''2.1'', path = ''/ts/2.1''\<rparr>]\<rparr>)
      \<lparr>getSourceFile = Some \<lparr>sourceText = ''let y;'',
           isDeclarationFile = False, lineStarts = [0], statements = []\<rparr>\<rparr>
      Map.empty = r
     \<and> ((\<exists>fs c. r = Inr (fs, c) \<and> fs \<noteq> [])
        \<or> (\<exists>e. r = Inl e \<and> (e = CollaboratorError \<or> e = TypeError \<or> e = DebugFailure))))"
proof -
  let ?prog = "\<lparr>getSourceFile = Some \<lparr>sourceText = ''let y;'',
           isDeclarationFile = False, lineStarts = [0], statements = []\<rparr>\<rparr>"
  let ?pass = "\<lparr>scan = (\<lambda>s. []), getPreEmitDiagnostics = (\<lambda>p. []),
                 flattenDiagnosticMessageText = (\<lambda>m s. toString m),
                 buildProgram = (\<lambda>c. Some ?prog)\<rparr>"
  let ?fail = "\<lparr>scan = (\<lambda>s. []),
                 getPreEmitDiagnostics = (\<lambda>p. [\<lparr>diagnosticFile = SameFile, start = 0, width = 3,
                     messageText = MessageString ''Bad.''\<rparr>]),
                 flattenDiagnosticMessageText = (\<lambda>m s. toString m),
                 buildProgram = (\<lambda>c. Some ?prog)\<rparr>"
  let ?env = "\<lparr>require = (\<lambda>p. if p = ''/ts/2.0'' then Some ?fail else Some ?pass),
       TsType = \<lparr>scan = (\<lambda>s. []), getPreEmitDiagnostics = (\<lambda>p. []),
                 flattenDiagnosticMessageText = (\<lambda>m s. toString m),
                 buildProgram = (\<lambda>c. None)\<rparr>\<rparr>"
  let ?opts = "\<lparr>tsconfigPath = ''tsconfig.json'', tsNextPath = ''/ts/next'',
       olderInstalls = [\<lparr>versionName = ''2.0'', path = ''/ts/2.0''\<rparr>,
                        \<lparr>versionName = ''2.1'', path = ''/ts/2.1''\<rparr>]\<rparr>"
  let ?c1 = "Map.empty(''next'' \<mapsto> ?prog)"
  let ?c2 = "?c1(''2.0'' \<mapsto> ?prog)"
  let ?f0 = "\<lparr>failureStart = 0, failureEnd = 3,
             message = ''TypeScript@2.0 compile error: '' @ [CHR 0x0A] @ ''Bad.''\<rparr>"
  have w: "walk ?pass ?prog ''next'' None = Inr []" "walk ?fail ?prog ''2.0'' None = Inr [?f0]"
    by code_simp+
  have g1: "getFailures ?env ?opts ''next'' (tsNextPath ?opts) None Map.empty = Inr ([], ?c1)"
    using getFailures_fresh [of ?env "''/ts/next''" ?pass Map.empty "''next''" ?opts ?prog None "[]"] w
    by simp
  have g2: "getFailures ?env ?opts (versionName (olderInstalls ?opts ! 0))
              (path (olderInstalls ?opts ! 0)) None ?c1 = Inr ([?f0], ?c2)"
    using getFailures_fresh [of ?env "''/ts/2.0''" ?fail ?c1 "''2.0''" ?opts ?prog None "[?f0]"] w
    by simp
  have ne: "olderInstalls ?opts \<noteq> []" "[?f0] \<noteq> []" by simp_all
  let ?X = "applyWithProgram ?env (Some ?opts) ?prog Map.empty"
  let ?S = "scanBackward ?env ?opts (length (olderInstalls ?opts)) ?c2"
  note T = applyWithProgram_never_reaches_throw
    [of ?env "Some ?opts" ?prog Map.empty ?opts ?c1 "[?f0]" ?c2]
  have a: "?X \<noteq> Inl UnreachableError"
    using T by (rule conjunct1)
  have hyp: "Some ?opts = Some ?opts
       \<and> getFailures ?env ?opts ''next'' (tsNextPath ?opts) None Map.empty = Inr ([], ?c1)
       \<and> olderInstalls ?opts \<noteq> []
       \<and> getFailures ?env ?opts (versionName (olderInstalls ?opts ! 0)) (path (olderInstalls ?opts ! 0))
            None ?c1 = Inr ([?f0], ?c2)
       \<and> [?f0] \<noteq> []"
    using g1 g2 ne by (intro conjI refl)
  have b: "?X = ?S
          \<and> ((\<exists>fs c. ?S = Inr (fs, c) \<and> fs \<noteq> [])
              \<or> (\<exists>e. ?S = Inl e \<and> (e = CollaboratorError \<or> e = TypeError \<or> e = DebugFailure)))"
    using T [THEN conjunct2, THEN mp, OF hyp] .
  have "\<exists>r. ?X = r \<and> ((\<exists>fs c. r = Inr (fs, c) \<and> fs \<noteq> [])
        \<or> (\<exists>e. r = Inl e \<and> (e = CollaboratorError \<or> e = TypeError \<or> e = DebugFailure)))"
    using b by (intro exI [of _ ?S])
  with a show ?thesis by (rule conjI)
qed

subsection \<open>When the coordinator returns no failures\<close>

text \<open>
  C4, as stated, with the one configured version 2.0: the run against \<^verbatim>\<open>next\<close> yields no
  failures, the run against 2.0 yields one, and the coordinator returns that failure, not
  the empty list.
\<close>

theorem applyWithProgram_next_passes_min_fails:
  "map_sum id fst (getFailures
      \<lparr>require = (\<lambda>p. if p = ''/ts/2.0''
          then Some \<lparr>scan = (\<lambda>s. []),
                 getPreEmitDiagnostics = (\<lambda>p. [\<lparr>diagnosticFile = SameFile, start = 0, width = 3,
                     messageText = MessageString ''Bad.''\<rparr>]),
                 flattenDiagnosticMessageText = (\<lambda>m s. toString m),
                 buildProgram = (\<lambda>c. Some \<lparr>getSourceFile = Some \<lparr>sourceText = ''let y;'',
                     isDeclarationFile = False, lineStarts = [0], statements = []\<rparr>\<rparr>)\<rparr>
          else Some \<lparr>scan = (\<lambda>s. []), getPreEmitDiagnostics = (\<lambda>p. []),
                 flattenDiagnosticMessageText = (\<lambda>m s. toString m),
                 buildProgram = (\<lambda>c. Some \<lparr>getSourceFile = Some \<lparr>sourceText = ''let y;'',
                     isDeclarationFile = False, lineStarts = [0], statements = []\<rparr>\<rparr>)\<rparr>),
       TsType = \<lparr>scan = (\<lambda>s. []), getPreEmitDiagnostics = (\<lambda>p. []),
                 flattenDiagnosticMessageText = (\<lambda>m s. toString m),
                 buildProgram = (\<lambda>c. None)\<rparr>\<rparr>
      \<lparr>tsconfigPath = ''tsconfig.json'', tsNextPath = ''/ts/next'',
       olderInstalls = [\<lparr>versionName = ''2.0'', path = ''/ts/2.0''\<rparr>]\<rparr>
      ''next'' ''/ts/next'' None Map.empty) = Inr []
   \<and> map_sum id fst (applyWithProgram
      \<lparr>require = (\<lambda>p. if p = ''/ts/2.0''
          then Some \<lparr>scan = (\<lambda>s. []),
                 getPreEmitDiagnostics = (\<lambda>p. [\<lparr>diagnosticFile = SameFile, start = 0, width = 3,
                     messageText = MessageString ''Bad.''\<rparr>]),
                 flattenDiagnosticMessageText = (\<lambda>m s. toString m),
                 buildProgram = (\<lambda>c. Some \<lparr>getSourceFile = Some \<lparr>sourceText = ''let y;'',
                     isDeclarationFile = False, lineStarts = [0], statements = []\<rparr>\<rparr>)\<rparr>
          else Some \<lparr>scan = (\<lambda>s. []), getPreEmitDiagnostics = (\<lambda>p. []),
                 flattenDiagnosticMessageText = (\<lambda>m s. toString m),
                 buildProgram = (\<lambda>c. Some \<lparr>getSourceFile = Some \<lparr>sourceText = ''let y;'',
                     isDeclarationFile = False, lineStarts = [0], statements = []\<rparr>\<rparr>)\<rparr>),
       TsType = \<lparr>scan = (\<lambda>s. []), getPreEmitDiagnostics = (\<lambda>p. []),
                 flattenDiagnosticMessageText = (\<lambda>m s. toString m),
                 buildProgram = (\<lambda>c. None)\<rparr>\<rparr>
      (Some \<lparr>tsconfigPath = ''tsconfig.json'', tsNextPath = ''/ts/next'',
       olderInstalls = [\<lparr>versionName = ''2.0'', path = ''/ts/2.0''\<rparr>]\<rparr>)
      \<lparr>getSourceFile = Some \<lparr>sourceText = ''let y;'',
           isDeclarationFile = False, lineStarts = [0], statements = []\<rparr>\<rparr>
      Map.empty)
     = Inr [\<lparr>failureStart = 0, failureEnd = 3,
             message = ''Compile error in typescript@2.0 but not in typescript@next.'' @ [CHR 0x0A]
               @ ''TypeScript@next features not yet supported.'' @ [CHR 0x0A] @ ''Bad.''\<rparr>]"
  by code_simp

text \<open>
  C4, amended. In the multi-version configuration, if the run against \<^verbatim>\<open>next\<close> yields no
  failures and the run against the oldest configured version yields none either, the
  coordinator returns the empty failure list, whatever the versions in between would
  report. If \<^verbatim>\<open>next\<close> yields no failures and no older version is configured, the assertion
  on the list of older versions fails; if the oldest version yields failures, the result
  is not an empty list.
\<close>

theorem applyWithProgram_min_decides:
  "(getFailures env opts ''next'' (tsNextPath opts) None cache = Inr ([], c1)
      \<and> olderInstalls opts \<noteq> []
      \<and> getFailures env opts (versionName (olderInstalls opts ! 0)) (path (olderInstalls opts ! 0))
            None c1 = Inr ([], c2)
     \<longrightarrow> applyWithProgram env (Some opts) lintProgram cache = Inr ([], c2))
   \<and> (getFailures env opts ''next'' (tsNextPath opts) None cache = Inr ([], c1)
      \<and> olderInstalls opts = []
     \<longrightarrow> applyWithProgram env (Some opts) lintProgram cache = Inl AssertionError)
   \<and> (getFailures env opts ''next'' (tsNextPath opts) None cache = Inr ([], c1)
      \<and> olderInstalls opts \<noteq> []
      \<and> getFailures env opts (versionName (olderInstalls opts ! 0)) (path (olderInstalls opts ! 0))
            None c1 = Inr (fs0, c2)
      \<and> fs0 \<noteq> []
     \<longrightarrow> (\<forall>c. applyWithProgram env (Some opts) lintProgram cache \<noteq> Inr ([], c)))"
proof (intro conjI impI)
  assume "getFailures env opts ''next'' (tsNextPath opts) None cache = Inr ([], c1)
      \<and> olderInstalls opts \<noteq> []
      \<and> getFailures env opts (versionName (olderInstalls opts ! 0)) (path (olderInstalls opts ! 0))
            None c1 = Inr ([], c2)"
  then show "applyWithProgram env (Some opts) lintProgram cache = Inr ([], c2)"
    by (simp add: applyWithProgram_def Let_def)
next
  assume "getFailures env opts ''next'' (tsNextPath opts) None cache = Inr ([], c1)
      \<and> olderInstalls opts = []"
  then show "applyWithProgram env (Some opts) lintProgram cache = Inl AssertionError"
    by (simp add: applyWithProgram_def)
next
  assume a: "getFailures env opts ''next'' (tsNextPath opts) None cache = Inr ([], c1)
      \<and> olderInstalls opts \<noteq> []
      \<and> getFailures env opts (versionName (olderInstalls opts ! 0)) (path (olderInstalls opts ! 0))
            None c1 = Inr (fs0, c2)
      \<and> fs0 \<noteq> []"
  then have "applyWithProgram env (Some opts) lintProgram cache
         = scanBackward env opts (length (olderInstalls opts)) c2"
    by (intro applyWithProgram_scan) auto
  moreover from a have "(\<exists>fs c. scanBackward env opts (length (olderInstalls opts)) c2 = Inr (fs, c) \<and> fs \<noteq> [])
     \<or> (\<exists>e. scanBackward env opts (length (olderInstalls opts)) c2 = Inl e
            \<and> (e = CollaboratorError \<or> e = TypeError \<or> e = DebugFailure))"
    by (intro scan_after_min) auto
  ultimately show "\<forall>c. applyWithProgram env (Some opts) lintProgram cache \<noteq> Inr ([], c)"
    by auto
qed

text \<open>The theorem with the versions 2.0, 2.1 and 2.2, where only 2.1 would report a
  diagnostic: the result is empty.\<close>

theorem applyWithProgram_min_decides_witness:
  "map_sum id fst (applyWithProgram
      \<lparr>require = (\<lambda>p. if p = ''/ts/2.1''
          then Some \<lparr>scan = (\<lambda>s. []),
                 getPreEmitDiagnostics = (\<lambda>p. [\<lparr>diagnosticFile = SameFile, start = 0, width = 3,
                     messageText = MessageString ''Bad.''\<rparr>]),
                 flattenDiagnosticMessageText = (\<lambda>m s. toString m),
                 buildProgram = (\<lambda>c. Some \<lparr>getSourceFile = Some \<lparr>sourceText = ''let y;'',
                     isDeclarationFile = False, lineStarts = [0], statements = []\<rparr>\<rparr>)\<rparr>
          else Some \<lparr>scan = (\<lambda>s. []), getPreEmitDiagnostics = (\<lambda>p. []),
                 flattenDiagnosticMessageText = (\<lambda>m s. toString m),
                 buildProgram = (\<lambda>c. Some \<lparr>getSourceFile = Some \<lparr>sourceText = ''let y;'',
                     isDeclarationFile = False, lineStarts = [0], statements = []\<rparr>\<rparr>)\<rparr>),
       TsType = \<lparr>scan = (\<lambda>s. []), getPreEmitDiagnostics = (\<lambda>p. []),
                 flattenDiagnosticMessageText = (\<lambda>m s. toString m),
                 buildProgram = (\<lambda>c. None)\<rparr>\<rparr>
      (Some \<lparr>tsconfigPath = ''tsconfig.json'', tsNextPath = ''/ts/next'',
       olderInstalls = [\<lparr>versionName = ''2.0'', path = ''/ts/2.0''\<rparr>,
                        \<lparr>versionName = ''2.1'', path = ''/ts/2.1''\<rparr>,
                        \<lparr>versionName = ''2.2'', path = ''/ts/2.2''\<rparr>]\<rparr>)
      \<lparr>getSourceFile = Some \<lparr>sourceText = ''let y;'',
           isDeclarationFile = False, lineStarts = [0], statements = []\<rparr>\<rparr>
      Map.empty) = Inr []"
proof -
  let ?prog = "\<lparr>getSourceFile = Some \<lparr>sourceText = ''let y;'',
           isDeclarationFile = False, lineStarts = [0], statements = []\<rparr>\<rparr>"
  let ?pass = "\<lparr>scan = (\<lambda>s. []), getPreEmitDiagnostics = (\<lambda>p. []),
                 flattenDiagnosticMessageText = (\<lambda>m s. toString m),
                 buildProgram = (\<lambda>c. Some ?prog)\<rparr>"
  let ?fail = "\<lparr>scan = (\<lambda>s. []),
                 getPreEmitDiagnostics = (\<lambda>p. [\<lparr>diagnosticFile = SameFile, start = 0, width = 3,
                     messageText = MessageString ''Bad.''\<rparr>]),
                 flattenDiagnosticMessageText = (\<lambda>m s. toString m),
                 buildProgram = (\<lambda>c. Some ?prog)\<rparr>"
  let ?env = "\<lparr>require = (\<lambda>p. if p = ''/ts/2.1'' then Some ?fail else Some ?pass),
       TsType = \<lparr>scan = (\<lambda>s. []), getPreEmitDiagnostics = (\<lambda>p. []),
                 flattenDiagnosticMessageText = (\<lambda>m s. toString m),
                 buildProgram = (\<lambda>c. None)\<rparr>\<rparr>"
  let ?opts = "\<lparr>tsconfigPath = ''tsconfig.json'', tsNextPath = ''/ts/next'',
       olderInstalls = [\<lparr>versionName = ''2.0'', path = ''/ts/2.0''\<rparr>,
                        \<lparr>versionName = ''2.1'', path = ''/ts/2.1''\<rparr>,
                        \<lparr>versionName = ''2.2'', path = ''/ts/2.2''\<rparr>]\<rparr>"
  let ?c1 = "Map.empty(''next'' \<mapsto> ?prog)"
  let ?c2 = "?c1(''2.0'' \<mapsto> ?prog)"
  have w: "walk ?pass ?prog ''next'' None = Inr []" "walk ?pass ?prog ''2.0'' None = Inr []"
    by code_simp+
  have g1: "getFailures ?env ?opts ''next'' (tsNextPath ?opts) None Map.empty = Inr ([], ?c1)"
    using getFailures_fresh [of ?env "''/ts/next''" ?pass Map.empty "''next''" ?opts ?prog None "[]"] w
    by simp
  have g2: "getFailures ?env ?opts (versionName (olderInstalls ?opts ! 0))
              (path (olderInstalls ?opts ! 0)) None ?c1 = Inr ([], ?c2)"
    using getFailures_fresh [of ?env "''/ts/2.0''" ?pass ?c1 "''2.0''" ?opts ?prog None "[]"] w
    by simp
  have ne: "olderInstalls ?opts \<noteq> []" by simp
  from applyWithProgram_min_decides [of ?env ?opts Map.empty ?c1 ?c2 ?prog] g1 g2 ne
  have "applyWithProgram ?env (Some ?opts) ?prog Map.empty = Inr ([], ?c2)"
    by blast
  then show ?thesis by simp
qed

subsection \<open>The reported boundary\<close>




end
